theory Spec2Isabelle
  imports Main "HOL-Library.Word" "HOL-Library.Multiset"
begin

section \<open>Bytes, big-endian integers, slices and panics\<close>

text \<open>
  The codec of the BFFNT font container (package \<^verbatim>\<open>bffnt_headers\<close>) works on Go byte
  slices.  Fixed-width integers are words: \<^verbatim>\<open>uint16\<close> is \<^typ>\<open>16 word\<close>, \<^verbatim>\<open>uint32\<close> is
  \<^typ>\<open>32 word\<close>, \<^verbatim>\<open>int16\<close> is a \<^typ>\<open>16 word\<close> read with \<^const>\<open>sint\<close>, a \<^verbatim>\<open>rune\<close> is a
  \<^typ>\<open>32 word\<close>.  Go's \<^verbatim>\<open>int\<close> (64 bits) only holds lengths and positions of buffers
  here and is a \<^typ>\<open>nat\<close>.
\<close>

type_synonym byte = "8 word"
type_synonym uint16 = "16 word"
type_synonym uint32 = "32 word"
type_synonym rune = "32 word"

text \<open>
  The code has no error values: a read past the end of a buffer is a run-time panic of
  the slice expression (\<^verbatim>\<open>slice bounds out of range\<close>), which is how a truncated input
  shows; an index past the end of a slice is the panic \<^verbatim>\<open>index out of range\<close>.  The
  helpers \<^verbatim>\<open>assertEqual\<close> and \<^verbatim>\<open>verifyLeftoverBytes\<close> are declared in a file of the
  package that is not at hand.  Every panic is a value of \<open>error\<close>.
\<close>

datatype error =
    TruncatedInput
  | IndexOutOfRange
  | AssertionFailed nat nat
  | LeftoverBytes
  | SectionFailed

definition andThen :: "error + 'a \<Rightarrow> ('a \<Rightarrow> error + 'b) \<Rightarrow> error + 'b" where
  "andThen m f = (case m of Inl e \<Rightarrow> Inl e | Inr x \<Rightarrow> f x)"

text \<open>
  \<^verbatim>\<open>assertEqual(expected, actual)\<close>: taken as its name and its uses say, it stops the
  program when the two numbers differ.
\<close>

definition assertEqual :: "nat \<Rightarrow> nat \<Rightarrow> error + unit" where
  "assertEqual expected actual =
     (if expected = actual then Inr () else Inl (AssertionFailed expected actual))"

text \<open>
  \<^verbatim>\<open>binary.BigEndian.Uint16\<close>, \<^verbatim>\<open>Uint32\<close> and \<^verbatim>\<open>binaryWrite\<close> (\<^verbatim>\<open>binary.Write\<close> with
  \<^verbatim>\<open>binary.BigEndian\<close>) on byte sequences: most significant byte first.
\<close>

definition get16 :: "byte list \<Rightarrow> uint16" where
  "get16 b = word_of_nat (unat (b ! 0) * 256 + unat (b ! 1))"

definition put16 :: "uint16 \<Rightarrow> byte list" where
  "put16 v = [word_of_nat (unat v div 256), word_of_nat (unat v mod 256)]"

definition get32 :: "byte list \<Rightarrow> uint32" where
  "get32 b = word_of_nat (unat (get16 (take 2 b)) * 65536 + unat (get16 (drop 2 b)))"

definition put32 :: "uint32 \<Rightarrow> byte list" where
  "put32 v = put16 (word_of_nat (unat v div 65536)) @ put16 (word_of_nat (unat v mod 65536))"

text \<open>
  A Go slice is a window on a backing array: \<open>upto_cap\<close> holds the bytes from the start
  of the slice to the end of its capacity, \<open>slen\<close> is its length, and \<open>contents\<close> are
  the bytes within its length.  The slice expression \<^verbatim>\<open>s[lo:hi]\<close> checks
  \<^verbatim>\<open>lo <= hi <= cap(s)\<close>, \<^verbatim>\<open>s[lo:]\<close> checks \<^verbatim>\<open>lo <= len(s)\<close>; both keep the capacity up
  to the end of the backing array.  The buffer handed to a decoder is such a slice: the
  one that \<^verbatim>\<open>ioutil.ReadFile\<close> returns has more capacity than length.  \<open>whole\<close> is the
  slice of a byte sequence with no capacity to spare.
\<close>

datatype slice = Slice (upto_cap: "byte list") (slen: nat)

definition whole :: "byte list \<Rightarrow> slice" where
  "whole xs = Slice xs (length xs)"

definition contents :: "slice \<Rightarrow> byte list" where
  "contents s = take (slen s) (upto_cap s)"

definition reslice :: "slice \<Rightarrow> nat \<Rightarrow> nat \<Rightarrow> error + slice" where
  "reslice s lo hi =
     (if lo \<le> hi \<and> hi \<le> length (upto_cap s)
      then Inr (Slice (drop lo (upto_cap s)) (hi - lo))
      else Inl TruncatedInput)"

definition reslice_from :: "slice \<Rightarrow> nat \<Rightarrow> error + slice" where
  "reslice_from s lo =
     (if lo \<le> slen s
      then Inr (Slice (drop lo (upto_cap s)) (slen s - lo))
      else Inl TruncatedInput)"

definition Uint16 :: "slice \<Rightarrow> error + uint16" where
  "Uint16 s = (if slen s < 2 then Inl IndexOutOfRange else Inr (get16 (upto_cap s)))"

definition Uint32 :: "slice \<Rightarrow> error + uint32" where
  "Uint32 s = (if slen s < 4 then Inl IndexOutOfRange else Inr (get32 (upto_cap s)))"

section \<open>The container header (FFNT)\<close>

text \<open>
  The sizes and tags are constants of the package declared outside the files at hand;
  their values are fixed by the layouts the structs document: the container header
  ends at offset \<^verbatim>\<open>0x10 + 0x04\<close>, the kerning section's header is its magic and its size,
  and its magic is \<^verbatim>\<open>KRNG\<close>.
\<close>

definition FFNT_HEADER_SIZE :: nat where
  "FFNT_HEADER_SIZE = 20"

record FFNT =
  MagicHeader :: "byte list"
  Endianness :: uint16
  SectionSize :: uint16
  Version :: uint32
  TotalFileSize :: uint32
  BlockReadNum :: uint32

definition FFNT_Decode :: "slice \<Rightarrow> error + FFNT" where
  "FFNT_Decode raw =
     (let headerStart = 0; headerEnd = headerStart + FFNT_HEADER_SIZE in
      andThen (reslice raw headerStart headerEnd) (\<lambda>headerRaw.
      andThen (assertEqual FFNT_HEADER_SIZE (slen headerRaw)) (\<lambda>_.
      andThen (reslice headerRaw 0 4) (\<lambda>magic.
      andThen (andThen (reslice headerRaw 4 6) Uint16) (\<lambda>endianness.
      andThen (andThen (reslice headerRaw 6 8) Uint16) (\<lambda>sectionSize.
      andThen (andThen (reslice headerRaw 8 12) Uint32) (\<lambda>version.
      andThen (andThen (reslice headerRaw 12 16) Uint32) (\<lambda>totalFileSize.
      andThen (andThen (reslice headerRaw 16 FFNT_HEADER_SIZE) Uint32) (\<lambda>blockReadNum.
      Inr \<lparr> MagicHeader = contents magic, Endianness = endianness,
            SectionSize = sectionSize, Version = version,
            TotalFileSize = totalFileSize, BlockReadNum = blockReadNum \<rparr>)))))))))"

definition FFNT_Encode :: "FFNT \<Rightarrow> uint32 \<Rightarrow> error + byte list" where
  "FFNT_Encode ffnt totalFileSize =
     (let buf = MagicHeader ffnt @ put16 (Endianness ffnt) @ put16 (SectionSize ffnt)
                @ put32 (Version ffnt) @ put32 totalFileSize @ put32 (BlockReadNum ffnt) in
      andThen (assertEqual FFNT_HEADER_SIZE (length buf)) (\<lambda>_. Inr buf))"

section \<open>The kerning table (KRNG)\<close>

record kerningPair =
  SecondChar :: uint16
  KerningValue :: uint16

record KRNG =
  KRNG_MagicHeader :: "byte list"
  KRNG_SectionSize :: uint32
  KerningTable :: "uint16 \<rightharpoonup> kerningPair list"

text \<open>
  \<^verbatim>\<open>KRNG.Kern(r1, r2)\<close>: the key of the lookup is \<^verbatim>\<open>uint16(r1)\<close>, the low 16 bits of
  the rune; the second character of a pair is widened to a rune for the comparison.
  The loop returns at the first pair that matches.
\<close>

definition Kern :: "KRNG \<Rightarrow> rune \<Rightarrow> rune \<Rightarrow> uint16" where
  "Kern krng r1 r2 =
     (case KerningTable krng (ucast r1) of
        None \<Rightarrow> 0
      | Some pairs \<Rightarrow>
          (case find (\<lambda>s. r2 = ucast (SecondChar s)) pairs of
             Some s \<Rightarrow> KerningValue s
           | None \<Rightarrow> 0))"

text \<open>
  \<^verbatim>\<open>strings.Index(s, substr)\<close>: the index of the first occurrence of \<open>substr\<close> in
  \<open>s\<close>; \<open>None\<close> is Go's \<^verbatim>\<open>-1\<close>.
\<close>

fun Index :: "byte list \<Rightarrow> byte list \<Rightarrow> nat option" where
  "Index [] substr = (if substr = [] then Some 0 else None)"
| "Index (x # xs) substr =
     (if take (length substr) (x # xs) = substr then Some 0
      else map_option Suc (Index xs substr))"

definition KRNG_HEADER_SIZE :: nat where
  "KRNG_HEADER_SIZE = 8"

definition KRNG_MAGIC_HEADER :: "byte list" where
  "KRNG_MAGIC_HEADER = [0x4B, 0x52, 0x4E, 0x47]"

subsection \<open>Decode\<close>

text \<open>The inner loop of \<^verbatim>\<open>KRNG.Decode\<close>: \<open>n\<close> pairs from \<open>pairData\<close>, from \<open>pairPos\<close> on.\<close>

fun readPairs :: "slice \<Rightarrow> nat \<Rightarrow> nat \<Rightarrow> error + kerningPair list" where
  "readPairs pairData pairPos 0 = Inr []"
| "readPairs pairData pairPos (Suc n) =
     andThen (andThen (reslice pairData pairPos (pairPos + 2)) Uint16) (\<lambda>secondChar.
     andThen (andThen (reslice pairData (pairPos + 2) (pairPos + 4)) Uint16) (\<lambda>kerningValue.
     andThen (readPairs pairData (pairPos + 4) n) (\<lambda>rest.
     Inr (\<lparr> SecondChar = secondChar, KerningValue = kerningValue \<rparr> # rest))))"

text \<open>
  The part of the outer loop's body that follows a stored offset.  The offset, its double
  and the two positions derived from it are \<^verbatim>\<open>uint16\<close> values, so \<open>*\<close> and \<open>+\<close> are
  those of \<^typ>\<open>16 word\<close>; they index \<open>data\<close> as they are.
\<close>

definition readPairArray :: "slice \<Rightarrow> uint16 \<Rightarrow> error + kerningPair list" where
  "readPairArray data secondCharOffset =
     (let realSecondCharOffset = secondCharOffset * 2 in
      andThen (andThen (reslice data (unat realSecondCharOffset)
                          (unat (realSecondCharOffset + 2))) Uint16) (\<lambda>secondCharCount.
      let pairDataStart = realSecondCharOffset + 2;
          pairDataEnd = realSecondCharOffset + 2 + secondCharCount * 4 in
      andThen (reslice data (unat pairDataStart) (unat pairDataEnd)) (\<lambda>pairData.
      readPairs pairData 0 (unat secondCharCount))))"

text \<open>
  The outer loop, \<open>n\<close> first characters to go.  \<open>totalDataBytesRead\<close> grows by 4
  for the entry, 2 for the count and 4 for every pair read.
\<close>

fun readFirstChars ::
  "slice \<Rightarrow> nat \<Rightarrow> nat \<Rightarrow> nat \<Rightarrow> (uint16 \<rightharpoonup> kerningPair list)
     \<Rightarrow> error + (nat \<times> (uint16 \<rightharpoonup> kerningPair list))" where
  "readFirstChars data 0 dataPos totalDataBytesRead kerningMap =
     Inr (totalDataBytesRead, kerningMap)"
| "readFirstChars data (Suc n) dataPos totalDataBytesRead kerningMap =
     andThen (andThen (reslice data dataPos (dataPos + 2)) Uint16) (\<lambda>firstChar.
     andThen (andThen (reslice data (dataPos + 2) (dataPos + 4)) Uint16) (\<lambda>secondCharOffset.
     andThen (readPairArray data secondCharOffset) (\<lambda>kerningPairSlice.
     readFirstChars data n (dataPos + 4)
       (totalDataBytesRead + 4 + 2 + 4 * length kerningPairSlice)
       (kerningMap(firstChar \<mapsto> kerningPairSlice)))))"

text \<open>
  \<^verbatim>\<open>KRNG.Decode\<close> from the header start on.  \<^verbatim>\<open>verifyLeftoverBytes\<close> is a helper of the
  package declared outside the files at hand: it is the parameter \<open>verify\<close>, which says
  of the bytes left after the table whether the program goes on.
\<close>

definition KRNG_Decode_at ::
  "(byte list \<Rightarrow> bool) \<Rightarrow> KRNG \<Rightarrow> slice \<Rightarrow> nat \<Rightarrow> error + KRNG" where
  "KRNG_Decode_at verify krng bffntRaw headerStart =
     (let headerEnd = headerStart + KRNG_HEADER_SIZE in
      andThen (reslice bffntRaw headerStart headerEnd) (\<lambda>headerRaw.
      andThen (assertEqual KRNG_HEADER_SIZE (slen headerRaw)) (\<lambda>_.
      andThen (reslice headerRaw 0 4) (\<lambda>magic.
      andThen (andThen (reslice headerRaw 4 8) Uint32) (\<lambda>sectionSize.
      let dataEnd = headerStart + unat sectionSize in
      andThen (reslice bffntRaw headerEnd dataEnd) (\<lambda>data.
      andThen (andThen (reslice data 0 2) Uint16) (\<lambda>firstCharCount.
      andThen (readFirstChars data (unat firstCharCount) 2 2 Map.empty) (\<lambda>(totalDataBytesRead, kerningMap).
      andThen (reslice_from data totalDataBytesRead) (\<lambda>padding.
      if verify (contents padding)
      then Inr (krng \<lparr> KRNG_MagicHeader := contents magic, KRNG_SectionSize := sectionSize,
                       KerningTable := kerningMap \<rparr>)
      else Inl LeftoverBytes)))))))))"

text \<open>
  \<^verbatim>\<open>KRNG.Decode\<close>: the section is found by its magic, searched in the buffer as a string
  (the bytes within its length); without it the receiver is left as it was.
\<close>

definition KRNG_Decode :: "(byte list \<Rightarrow> bool) \<Rightarrow> KRNG \<Rightarrow> slice \<Rightarrow> error + KRNG" where
  "KRNG_Decode verify krng bffntRaw =
     (case Index (contents bffntRaw) KRNG_MAGIC_HEADER of
        None \<Rightarrow> Inr krng
      | Some headerStart \<Rightarrow> KRNG_Decode_at verify krng bffntRaw headerStart)"

subsection \<open>Encode\<close>

text \<open>
  \<^verbatim>\<open>getFirstCharsOrdered\<close>: the keys of the map as \<^verbatim>\<open>int\<close>s, sorted by \<^verbatim>\<open>sort.Ints\<close>,
  converted back to \<^verbatim>\<open>uint16\<close>.
\<close>

definition getFirstCharsOrdered :: "(uint16 \<rightharpoonup> kerningPair list) \<Rightarrow> uint16 list" where
  "getFirstCharsOrdered kerningTable =
     map word_of_nat (sorted_list_of_set (unat ` dom kerningTable))"

text \<open>\<^verbatim>\<open>krng.KerningTable[firstChar]\<close>: the pairs of a key, no pairs for a key not in the map.\<close>

definition pairsOf :: "(uint16 \<rightharpoonup> kerningPair list) \<Rightarrow> uint16 \<Rightarrow> kerningPair list" where
  "pairsOf kerningTable firstChar =
     (case kerningTable firstChar of None \<Rightarrow> [] | Some pairs \<Rightarrow> pairs)"

text \<open>The first loop of \<^verbatim>\<open>KRNG.Encode\<close>; \<open>secondCharDataOffset\<close> is its running offset.\<close>

fun writeFirstChars ::
  "(uint16 \<rightharpoonup> kerningPair list) \<Rightarrow> uint16 list \<Rightarrow> nat \<Rightarrow> byte list" where
  "writeFirstChars kerningTable [] secondCharDataOffset = []"
| "writeFirstChars kerningTable (firstChar # firstChars) secondCharDataOffset =
     put16 firstChar @ put16 (word_of_nat (secondCharDataOffset div 2))
     @ writeFirstChars kerningTable firstChars
         (secondCharDataOffset + 2 + 4 * length (pairsOf kerningTable firstChar))"

definition writePair :: "kerningPair \<Rightarrow> byte list" where
  "writePair kerningPair = put16 (SecondChar kerningPair) @ put16 (KerningValue kerningPair)"

text \<open>The body of the second loop: the count of a first character's pairs, then the pairs.\<close>

definition writePairArray :: "(uint16 \<rightharpoonup> kerningPair list) \<Rightarrow> uint16 \<Rightarrow> byte list" where
  "writePairArray kerningTable firstChar =
     put16 (word_of_nat (length (pairsOf kerningTable firstChar)))
     @ concat (map writePair (pairsOf kerningTable firstChar))"

text \<open>
  Modelled from the spec: \<^verbatim>\<open>padToNext4ByteBoundary\<close> is a helper of the package declared
  outside the files at hand.  The spec has the result padded with zero bytes to the next
  4-byte boundary relative to the section's absolute file offset, so that the encoded
  length is a multiple of 4; a buffer that ends on a boundary gets no padding.
\<close>

definition padToNext4ByteBoundary :: "byte list \<Rightarrow> nat \<Rightarrow> byte list" where
  "padToNext4ByteBoundary buf startOffset =
     buf @ replicate ((4 - (startOffset + length buf) mod 4) mod 4) 0"

definition krngDataBuf :: "(uint16 \<rightharpoonup> kerningPair list) \<Rightarrow> byte list" where
  "krngDataBuf kerningTable =
     (let firstChars = getFirstCharsOrdered kerningTable in
      put16 (word_of_nat (length firstChars))
      @ writeFirstChars kerningTable firstChars (length firstChars * 4 + 2)
      @ concat (map (writePairArray kerningTable) firstChars))"

text \<open>
  \<^verbatim>\<open>KRNG.Encode(startOffset)\<close> returns the bytes of the section and leaves the section
  size it computed in the receiver.
\<close>

definition KRNG_Encode :: "KRNG \<Rightarrow> uint32 \<Rightarrow> byte list \<times> KRNG" where
  "KRNG_Encode krng startOffset =
     (if dom (KerningTable krng) = {} then ([], krng)
      else
        let krngData = padToNext4ByteBoundary (krngDataBuf (KerningTable krng)) (unat startOffset);
            sectionSize = word_of_nat (KRNG_HEADER_SIZE + length krngData)
        in (KRNG_MAGIC_HEADER @ put32 sectionSize @ krngData,
            krng \<lparr> KRNG_SectionSize := sectionSize \<rparr>))"

section \<open>The document (BFFNT)\<close>

text \<open>
  The character map blocks: of the struct \<^verbatim>\<open>CMAP\<close>, declared outside the files at hand,
  the document's code uses the two parallel slices \<^verbatim>\<open>CharAscii\<close> and \<^verbatim>\<open>CharIndex\<close>; the
  other fields are the record's extension.
\<close>

record CMAP =
  CMAP_CharAscii :: "uint16 list"
  CMAP_CharIndex :: "uint16 list"

record AsciiIndexPair =
  CharAscii :: uint16
  CharIndex :: uint16

text \<open>
  The font info, the texture page and the width blocks (\<^verbatim>\<open>FINF\<close>, \<^verbatim>\<open>TGLP\<close>, \<^verbatim>\<open>CWDH\<close>)
  are types of the package declared outside the files at hand: they are the type
  parameters \<open>'finf\<close>, \<open>'tglp\<close> and \<open>'cwdh\<close>.
\<close>

record ('finf, 'tglp, 'cwdh, 'cmap) BFFNT =
  FFNT :: FFNT
  FINF :: 'finf
  TGLP :: 'tglp
  CWDHs :: "'cwdh list"
  CMAPs :: "'cmap CMAP_scheme list"
  KRNG :: KRNG
  CWDHIndexMap :: "rune \<rightharpoonup> nat"

text \<open>
  The decoders and encoders of those sections, the size of the font info and the two
  offsets that the document's decoder reads from the font info are code of the package
  outside the files at hand as well; the document's decoder and encoder take them as the
  parameter \<open>S\<close>.  Each of them may panic.
\<close>

record ('finf, 'tglp, 'cwdh, 'cmap) sections =
  FINF_HEADER_SIZE :: nat
  FINF_Decode :: "slice \<Rightarrow> error + 'finf"
  FINF_Encode :: "'finf \<Rightarrow> nat \<Rightarrow> nat \<Rightarrow> nat \<Rightarrow> error + byte list"
  CWDHOffset :: "'finf \<Rightarrow> uint32"
  CMAPOffset :: "'finf \<Rightarrow> uint32"
  TGLP_Decode :: "slice \<Rightarrow> error + 'tglp"
  TGLP_Encode :: "'tglp \<Rightarrow> error + byte list"
  DecodeCWDHs :: "slice \<Rightarrow> uint32 \<Rightarrow> error + 'cwdh list"
  EncodeCWDHs :: "'cwdh list \<Rightarrow> nat \<Rightarrow> error + byte list"
  DecodeCMAPs :: "slice \<Rightarrow> uint32 \<Rightarrow> error + 'cmap CMAP_scheme list"
  EncodeCMAPs :: "'cmap CMAP_scheme list \<Rightarrow> nat \<Rightarrow> error + byte list"

text \<open>
  What \<^verbatim>\<open>BFFNT.Encode\<close> computes before it concatenates: the bytes of the six sections
  and the offsets it hands to the font info's encoder.
\<close>

record encoded =
  ffntRaw :: "byte list"
  finfRaw :: "byte list"
  tglpRaw :: "byte list"
  cwdhsRaw :: "byte list"
  cmapsRaw :: "byte list"
  krngRaw :: "byte list"
  tglpOffset :: nat
  cwdhOffset :: nat
  cmapOffset :: nat
  krngOffset :: nat

definition BFFNT_Encode_parts ::
  "('finf, 'tglp, 'cwdh, 'cmap) sections \<Rightarrow> ('finf, 'tglp, 'cwdh, 'cmap) BFFNT
     \<Rightarrow> error + encoded" where
  "BFFNT_Encode_parts S b =
     (let tglpOffset = FFNT_HEADER_SIZE + FINF_HEADER_SIZE S + 8 in
      andThen (TGLP_Encode S (TGLP b)) (\<lambda>tglpRaw.
      let cwdhOffset = tglpOffset + length tglpRaw in
      andThen (EncodeCWDHs S (CWDHs b) cwdhOffset) (\<lambda>cwdhsRaw.
      let cmapOffset = cwdhOffset + length cwdhsRaw in
      andThen (EncodeCMAPs S (CMAPs b) cmapOffset) (\<lambda>cmapsRaw.
      andThen (FINF_Encode S (FINF b) tglpOffset cwdhOffset cmapOffset) (\<lambda>finfRaw.
      let krngOffset = cmapOffset + length cmapsRaw;
          krngRaw = fst (KRNG_Encode (KRNG b) (word_of_nat krngOffset));
          fileSize = word_of_nat (FFNT_HEADER_SIZE + length finfRaw + length tglpRaw
                       + length cwdhsRaw + length cmapsRaw + length krngRaw) in
      andThen (FFNT_Encode (FFNT b) fileSize) (\<lambda>ffntRaw.
      Inr \<lparr> ffntRaw = ffntRaw, finfRaw = finfRaw, tglpRaw = tglpRaw, cwdhsRaw = cwdhsRaw,
            cmapsRaw = cmapsRaw, krngRaw = krngRaw, tglpOffset = tglpOffset,
            cwdhOffset = cwdhOffset, cmapOffset = cmapOffset, krngOffset = krngOffset \<rparr>))))))"

definition assemble :: "encoded \<Rightarrow> byte list" where
  "assemble p = ffntRaw p @ finfRaw p @ tglpRaw p @ cwdhsRaw p @ cmapsRaw p @ krngRaw p"

definition BFFNT_Encode ::
  "('finf, 'tglp, 'cwdh, 'cmap) sections \<Rightarrow> ('finf, 'tglp, 'cwdh, 'cmap) BFFNT
     \<Rightarrow> error + byte list" where
  "BFFNT_Encode S b = andThen (BFFNT_Encode_parts S b) (\<lambda>p. Inr (assemble p))"

text \<open>
  \<^verbatim>\<open>BFFNT.GlyphIndexes\<close>.  The inner loop runs over the indices \<open>js\<close> of \<^verbatim>\<open>CharAscii\<close>
  and reads \<^verbatim>\<open>CharIndex\<close> at each of them, which panics past its end.
\<close>

fun scanCMAP ::
  "uint16 list \<Rightarrow> uint16 list \<Rightarrow> nat list \<Rightarrow> AsciiIndexPair list
     \<Rightarrow> error + AsciiIndexPair list" where
  "scanCMAP charAscii charIndex [] pairSlice = Inr pairSlice"
| "scanCMAP charAscii charIndex (j # js) pairSlice =
     (if length charIndex \<le> j then Inl IndexOutOfRange
      else if charIndex ! j \<noteq> 65535
      then scanCMAP charAscii charIndex js
             (pairSlice @ [\<lparr> CharAscii = charAscii ! j, CharIndex = charIndex ! j \<rparr>])
      else scanCMAP charAscii charIndex js pairSlice)"

fun scanCMAPs ::
  "'cmap CMAP_scheme list \<Rightarrow> AsciiIndexPair list \<Rightarrow> error + AsciiIndexPair list" where
  "scanCMAPs [] pairSlice = Inr pairSlice"
| "scanCMAPs (cmap # cmaps) pairSlice =
     andThen (scanCMAP (CMAP_CharAscii cmap) (CMAP_CharIndex cmap)
                [0 ..< length (CMAP_CharAscii cmap)] pairSlice)
       (scanCMAPs cmaps)"

text \<open>
  \<^verbatim>\<open>sort.Slice(x, less)\<close> is the standard library's: it is the parameter \<open>sortSlice\<close>.
  Its contract is \<open>sortsSlices\<close>: the result is a rearrangement of the slice in which no
  element is less (by \<open>lessFn\<close>) than an element before it.  The order of elements that
  \<open>lessFn\<close> does not tell apart is not fixed (the sort is not stable).
\<close>

definition sortsSlices :: "(('a \<Rightarrow> 'a \<Rightarrow> bool) \<Rightarrow> 'a list \<Rightarrow> 'a list) \<Rightarrow> ('a \<Rightarrow> 'a \<Rightarrow> bool) \<Rightarrow> bool" where
  "sortsSlices sortSlice lessFn \<longleftrightarrow>
     (\<forall>xs. mset (sortSlice lessFn xs) = mset xs
         \<and> sorted_wrt (\<lambda>a b. \<not> lessFn b a) (sortSlice lessFn xs))"

definition GlyphIndexes ::
  "((AsciiIndexPair \<Rightarrow> AsciiIndexPair \<Rightarrow> bool) \<Rightarrow> AsciiIndexPair list \<Rightarrow> AsciiIndexPair list)
     \<Rightarrow> ('finf, 'tglp, 'cwdh, 'cmap) BFFNT \<Rightarrow> error + AsciiIndexPair list" where
  "GlyphIndexes sortSlice b =
     andThen (scanCMAPs (CMAPs b) []) (\<lambda>pairSlice.
     Inr (sortSlice (\<lambda>p q. CharIndex p < CharIndex q) pairSlice))"

text \<open>
  The entries of a map block, as the claim about the enumeration speaks of them: the
  code points paired with their glyph indices, position by position.
\<close>

definition cmapEntries :: "'cmap CMAP_scheme \<Rightarrow> AsciiIndexPair list" where
  "cmapEntries cmap =
     map (\<lambda>(a, i). \<lparr> CharAscii = a, CharIndex = i \<rparr>)
       (zip (CMAP_CharAscii cmap) (CMAP_CharIndex cmap))"


text \<open>
  \<^verbatim>\<open>BFFNT.Decode\<close>: the sections in their order, each from the whole buffer, then the
  map from a rune to its place in the enumeration of glyph indices.
\<close>

definition indexGlyphs :: "AsciiIndexPair list \<Rightarrow> (rune \<rightharpoonup> nat)" where
  "indexGlyphs glyphs =
     fold (\<lambda>(i, glyph) indexMap. indexMap(ucast (CharAscii glyph) \<mapsto> i))
       (enumerate 0 glyphs) Map.empty"

definition BFFNT_Decode ::
  "('finf, 'tglp, 'cwdh, 'cmap) sections \<Rightarrow> (byte list \<Rightarrow> bool)
     \<Rightarrow> ((AsciiIndexPair \<Rightarrow> AsciiIndexPair \<Rightarrow> bool)
          \<Rightarrow> AsciiIndexPair list \<Rightarrow> AsciiIndexPair list)
     \<Rightarrow> ('finf, 'tglp, 'cwdh, 'cmap) BFFNT \<Rightarrow> slice
     \<Rightarrow> error + ('finf, 'tglp, 'cwdh, 'cmap) BFFNT" where
  "BFFNT_Decode S verify sortSlice b bffntRaw =
     andThen (FFNT_Decode bffntRaw) (\<lambda>ffnt.
     andThen (FINF_Decode S bffntRaw) (\<lambda>finf.
     andThen (TGLP_Decode S bffntRaw) (\<lambda>tglp.
     andThen (DecodeCWDHs S bffntRaw (CWDHOffset S finf)) (\<lambda>cwdhs.
     andThen (DecodeCMAPs S bffntRaw (CMAPOffset S finf)) (\<lambda>cmaps.
     andThen (KRNG_Decode verify (KRNG b) bffntRaw) (\<lambda>krng.
     let decoded = b \<lparr> FFNT := ffnt, FINF := finf, TGLP := tglp, CWDHs := cwdhs,
                        CMAPs := cmaps, KRNG := krng \<rparr> in
     andThen (GlyphIndexes sortSlice decoded) (\<lambda>glyphs.
     Inr (decoded \<lparr> CWDHIndexMap := indexGlyphs glyphs \<rparr>))))))))"

section \<open>What the claims speak of\<close>

text \<open>
  The layout of the kerning section, as the struct \<^verbatim>\<open>KRNG\<close> documents it: after the
  8 bytes of magic and size, the section data holds the number of first characters,
  then for entry \<open>i\<close> the first character at byte \<open>2 + 4 * i\<close> and the stored offset
  two bytes further.
\<close>

definition sectionData :: "byte list \<Rightarrow> byte list" where
  "sectionData section = drop KRNG_HEADER_SIZE section"

definition entryFirstChar :: "byte list \<Rightarrow> nat \<Rightarrow> uint16" where
  "entryFirstChar secData i = get16 (drop (2 + 4 * i) secData)"

definition entryStoredOffset :: "byte list \<Rightarrow> nat \<Rightarrow> uint16" where
  "entryStoredOffset secData i = get16 (drop (2 + 4 * i + 2) secData)"

text \<open>
  The byte offset of the pair array of entry \<open>i\<close> as the claim on the encoder counts it:
  from \<open>2 + 4 * n\<close> for \<open>n\<close> first characters, plus \<open>2 + 4 * pairCount\<close> for every
  entry before \<open>i\<close>.
\<close>

definition pairArrayOffset ::
  "(uint16 \<rightharpoonup> kerningPair list) \<Rightarrow> uint16 list \<Rightarrow> nat \<Rightarrow> nat" where
  "pairArrayOffset kerningTable firstChars i =
     2 + 4 * length firstChars
     + sum_list (map (\<lambda>firstChar. 2 + 4 * length (pairsOf kerningTable firstChar))
                  (take i firstChars))"

text \<open>
  Where the sections that the font info points to start in the output of
  \<^verbatim>\<open>BFFNT.Encode\<close>, by the order in which it concatenates them.
\<close>

definition tglpSectionStart :: "encoded \<Rightarrow> nat" where
  "tglpSectionStart p = length (ffntRaw p) + length (finfRaw p)"

definition cwdhSectionStart :: "encoded \<Rightarrow> nat" where
  "cwdhSectionStart p = tglpSectionStart p + length (tglpRaw p)"

definition cmapSectionStart :: "encoded \<Rightarrow> nat" where
  "cmapSectionStart p = cwdhSectionStart p + length (cwdhsRaw p)"

text \<open>
  Modelled from the spec: the layouts of the texture page, the width blocks and the map
  blocks are code outside the files at hand.  The spec has every section but the
  container header begin with a 4-byte magic tag and a 4-byte size, so that its payload
  starts 8 bytes past its start.
\<close>

definition payloadStart :: "nat \<Rightarrow> nat" where
  "payloadStart sectionStart = sectionStart + 8"

text \<open>
  A kerning section as it stands in a well-formed buffer: the entries for the first
  characters \<open>firstChars\<close> in their order, the pair arrays in the same order, zero bytes
  up to the next multiple of 4 of the file position (\<open>dataStart\<close> is the file position of
  the section data), and the size of all that in the section's header.
\<close>

definition krngLayout :: "(uint16 \<rightharpoonup> kerningPair list) \<Rightarrow> uint16 list \<Rightarrow> byte list" where
  "krngLayout kerningTable firstChars =
     put16 (word_of_nat (length firstChars))
     @ writeFirstChars kerningTable firstChars (length firstChars * 4 + 2)
     @ concat (map (writePairArray kerningTable) firstChars)"

definition padLength :: "nat \<Rightarrow> nat \<Rightarrow> nat" where
  "padLength dataStart n = (4 - (dataStart + n) mod 4) mod 4"

definition krngSection ::
  "(uint16 \<rightharpoonup> kerningPair list) \<Rightarrow> uint16 list \<Rightarrow> nat \<Rightarrow> byte list" where
  "krngSection kerningTable firstChars dataStart =
     (let krngData = padToNext4ByteBoundary (krngLayout kerningTable firstChars) dataStart in
      KRNG_MAGIC_HEADER @ put32 (word_of_nat (KRNG_HEADER_SIZE + length krngData)) @ krngData)"

text \<open>
  The kerning part \<open>krngB\<close> of a well-formed buffer that starts with the bytes
  \<open>before\<close>: either there is none, and the tag \<^verbatim>\<open>KRNG\<close> occurs nowhere; or it is the
  section of a table with at least one first character, each first character once, its
  data shorter than 64 KiB, the first occurrence of the tag in the buffer is its start,
  and \<^verbatim>\<open>verifyLeftoverBytes\<close> lets its zero padding pass.
\<close>

definition kerningWellFormed ::
  "(byte list \<Rightarrow> bool) \<Rightarrow> byte list \<Rightarrow> byte list \<Rightarrow> (uint16 \<rightharpoonup> kerningPair list)
     \<Rightarrow> uint16 list \<Rightarrow> bool" where
  "kerningWellFormed verify before krngB kerningTable firstChars \<longleftrightarrow>
     (if firstChars = []
      then krngB = [] \<and> kerningTable = Map.empty \<and> Index before KRNG_MAGIC_HEADER = None
      else krngB = krngSection kerningTable firstChars (length before + KRNG_HEADER_SIZE) \<and>
           distinct firstChars \<and> set firstChars = dom kerningTable \<and>
           length (krngLayout kerningTable firstChars) < 65536 \<and>
           Index (before @ krngB) KRNG_MAGIC_HEADER = Some (length before) \<and>
           verify (replicate (padLength (length before + KRNG_HEADER_SIZE)
                                (length (krngLayout kerningTable firstChars))) 0))"

text \<open>
  The sections whose codecs are outside the files at hand reproduce their bytes
  \<open>finfB\<close>, \<open>tglpB\<close>, \<open>cwdhB\<close> and \<open>cmapB\<close> of the buffer \<open>raw\<close>: the decoders return
  on \<open>raw\<close>, every map block decoded has a glyph index for each code point, and the
  encoders, given what was decoded and the offsets that the document's encoder computes,
  return those bytes, the font info in its fixed size.
\<close>

definition sectionsReproduce ::
  "('finf, 'tglp, 'cwdh, 'cmap) sections \<Rightarrow> slice \<Rightarrow> byte list \<Rightarrow> byte list
     \<Rightarrow> byte list \<Rightarrow> byte list \<Rightarrow> bool" where
  "sectionsReproduce S raw finfB tglpB cwdhB cmapB \<longleftrightarrow>
     (\<exists>finf tglp cwdhs cmaps.
        FINF_Decode S raw = Inr finf \<and> TGLP_Decode S raw = Inr tglp \<and>
        DecodeCWDHs S raw (CWDHOffset S finf) = Inr cwdhs \<and>
        DecodeCMAPs S raw (CMAPOffset S finf) = Inr cmaps \<and>
        list_all (\<lambda>cmap. length (CMAP_CharAscii cmap) \<le> length (CMAP_CharIndex cmap)) cmaps \<and>
        TGLP_Encode S tglp = Inr tglpB \<and>
        EncodeCWDHs S cwdhs (FFNT_HEADER_SIZE + FINF_HEADER_SIZE S + 8 + length tglpB)
          = Inr cwdhB \<and>
        EncodeCMAPs S cmaps
          (FFNT_HEADER_SIZE + FINF_HEADER_SIZE S + 8 + length tglpB + length cwdhB)
          = Inr cmapB \<and>
        FINF_Encode S finf (FFNT_HEADER_SIZE + FINF_HEADER_SIZE S + 8)
          (FFNT_HEADER_SIZE + FINF_HEADER_SIZE S + 8 + length tglpB)
          (FFNT_HEADER_SIZE + FINF_HEADER_SIZE S + 8 + length tglpB + length cwdhB)
          = Inr finfB \<and>
        length finfB = FINF_HEADER_SIZE S)"

section \<open>Example buffers\<close>

text \<open>
  A file of 10 bytes, the start of a container header, in a buffer of 512 bytes of
  capacity with zero bytes past its length, which is how \<^verbatim>\<open>ioutil.ReadFile\<close> returns a
  short file; a buffer whose capacity is 10 as well; and a header of 20 bytes followed
  by one more byte.
\<close>

definition shortFile :: slice where
  "shortFile =
     Slice ([0x46, 0x46, 0x4E, 0x54, 0xFE, 0xFF, 0x00, 0x14, 0x03, 0x00] @ replicate 502 0) 10"

definition shortBuffer :: slice where
  "shortBuffer = whole [0x46, 0x46, 0x4E, 0x54, 0xFE, 0xFF, 0x00, 0x14, 0x03, 0x00]"

definition headerBuffer :: slice where
  "headerBuffer =
     whole [0x46, 0x46, 0x4E, 0x54, 0xFE, 0xFF, 0x00, 0x14, 0x03, 0x00, 0x00, 0x00,
            0x00, 0x00, 0x01, 0x00, 0x00, 0x01, 0x00, 0x00, 0x46]"

text \<open>A kerning table yet to be decoded: no magic, no size, no entries.\<close>

definition emptyKRNG :: KRNG where
  "emptyKRNG = \<lparr> KRNG_MagicHeader = [], KRNG_SectionSize = 0, KerningTable = Map.empty \<rparr>"

text \<open>
  A 20-byte section tagged \<^verbatim>\<open>TGLP\<close> whose payload holds the bytes \<^verbatim>\<open>KRNG\<close> at
  position 9, followed by the kerning section proper at position 20: one first
  character \<^verbatim>\<open>A\<close> with the pair \<^verbatim>\<open>(V, -1)\<close>.
\<close>

definition strayMagicBuffer :: "byte list" where
  "strayMagicBuffer =
     [0x54, 0x47, 0x4C, 0x50, 0x00, 0x00, 0x00, 0x14, 0x4B,
      0x4B, 0x52, 0x4E, 0x47, 0x00, 0x00, 0x00, 0x0B, 0x00, 0x00, 0x00,
      0x4B, 0x52, 0x4E, 0x47, 0x00, 0x00, 0x00, 0x14, 0x00, 0x01, 0x00, 0x41,
      0x00, 0x03, 0x00, 0x01, 0x00, 0x56, 0xFF, 0xFF]"

text \<open>
  The data of a kerning section with one first character \<^verbatim>\<open>A\<close> whose stored offset is
  \<^verbatim>\<open>0x8003\<close>, and the pair \<^verbatim>\<open>(V, -1)\<close> at byte 6.
\<close>

definition wrappedOffsetData :: "byte list" where
  "wrappedOffsetData =
     [0x00, 0x01, 0x00, 0x41, 0x80, 0x03, 0x00, 0x01, 0x00, 0x56, 0xFF, 0xFF]"

text \<open>Two kerning tables: a small one, and one whose second pair array lies past byte 131071.\<close>

definition examplePair :: kerningPair where
  "examplePair = \<lparr> SecondChar = 0x56, KerningValue = 0xFFFF \<rparr>"

text \<open>The table with the one entry \<^verbatim>\<open>A\<close>, whose one pair is \<^verbatim>\<open>(V, -1)\<close>.\<close>

definition capitalA :: KRNG where
  "capitalA = \<lparr> KRNG_MagicHeader = [], KRNG_SectionSize = 0,
                KerningTable = [0x41 \<mapsto> [examplePair]] \<rparr>"

definition smallKRNG :: KRNG where
  "smallKRNG =
     \<lparr> KRNG_MagicHeader = [], KRNG_SectionSize = 0,
       KerningTable =
         [0x4C \<mapsto> [examplePair],
          0x41 \<mapsto> [examplePair, \<lparr> SecondChar = 0x57, KerningValue = 0xFFFE \<rparr>]] \<rparr>"

definition longPairs :: "kerningPair list" where
  "longPairs = replicate 32767 examplePair"

definition bigKRNG :: KRNG where
  "bigKRNG = \<lparr> KRNG_MagicHeader = [], KRNG_SectionSize = 0,
               KerningTable = [0x41 \<mapsto> longPairs, 0x42 \<mapsto> [examplePair]] \<rparr>"

text \<open>
  A document with no width blocks, map blocks or kerning, and stand-ins for the codecs
  of the sections that are not at hand: a font info of 32 bytes that ends with the three
  offsets, and sections of 12 bytes (tag, size, 4 bytes of payload); the decoders
  return the one value of their types.
\<close>

definition standInSections :: "(unit, unit, unit, unit) sections" where
  "standInSections =
     \<lparr> FINF_HEADER_SIZE = 32,
       FINF_Decode = (\<lambda>raw. Inr ()),
       FINF_Encode = (\<lambda>finf tglpOffset cwdhOffset cmapOffset.
          Inr ([0x46, 0x49, 0x4E, 0x46, 0x00, 0x00, 0x00, 0x20,
                0, 0, 0, 0, 0, 0, 0, 0, 0, 0, 0, 0]
               @ put32 (word_of_nat tglpOffset) @ put32 (word_of_nat cwdhOffset)
               @ put32 (word_of_nat cmapOffset))),
       CWDHOffset = (\<lambda>finf. 72),
       CMAPOffset = (\<lambda>finf. 84),
       TGLP_Decode = (\<lambda>raw. Inr ()),
       TGLP_Encode = (\<lambda>tglp.
          Inr [0x54, 0x47, 0x4C, 0x50, 0x00, 0x00, 0x00, 0x0C, 1, 2, 3, 4]),
       DecodeCWDHs = (\<lambda>raw startOffset. Inr []),
       EncodeCWDHs = (\<lambda>cwdhs startOffset.
          Inr [0x43, 0x57, 0x44, 0x48, 0x00, 0x00, 0x00, 0x0C, 5, 6, 7, 8]),
       DecodeCMAPs = (\<lambda>raw startOffset. Inr []),
       EncodeCMAPs = (\<lambda>cmaps startOffset.
          Inr [0x43, 0x4D, 0x41, 0x50, 0x00, 0x00, 0x00, 0x0C, 9, 10, 11, 12]) \<rparr>"

definition exampleDocument :: "(unit, unit, unit, unit) BFFNT" where
  "exampleDocument =
     \<lparr> FFNT = \<lparr> MagicHeader = [0x46, 0x46, 0x4E, 0x54], Endianness = 0xFEFF,
                SectionSize = 0x14, Version = 0x03000000, TotalFileSize = 0,
                BlockReadNum = 0x10000 \<rparr>,
       FINF = (), TGLP = (), CWDHs = [], CMAPs = [], KRNG = emptyKRNG,
       CWDHIndexMap = Map.empty \<rparr>"

definition exampleEncoded :: encoded where
  "exampleEncoded =
     \<lparr> ffntRaw = [0x46, 0x46, 0x4E, 0x54, 0xFE, 0xFF, 0x00, 0x14, 0x03, 0x00, 0x00, 0x00,
                  0x00, 0x00, 0x00, 0x58, 0x00, 0x01, 0x00, 0x00],
       finfRaw = [0x46, 0x49, 0x4E, 0x46, 0x00, 0x00, 0x00, 0x20, 0, 0, 0, 0, 0, 0, 0, 0,
                  0, 0, 0, 0, 0x00, 0x00, 0x00, 0x3C, 0x00, 0x00, 0x00, 0x48,
                  0x00, 0x00, 0x00, 0x54],
       tglpRaw = [0x54, 0x47, 0x4C, 0x50, 0x00, 0x00, 0x00, 0x0C, 1, 2, 3, 4],
       cwdhsRaw = [0x43, 0x57, 0x44, 0x48, 0x00, 0x00, 0x00, 0x0C, 5, 6, 7, 8],
       cmapsRaw = [0x43, 0x4D, 0x41, 0x50, 0x00, 0x00, 0x00, 0x0C, 9, 10, 11, 12],
       krngRaw = [], tglpOffset = 60, cwdhOffset = 72, cmapOffset = 84, krngOffset = 96 \<rparr>"

text \<open>
  Buffers for the stand-in sections: a container header with a given total file size,
  the four sections that follow it, and three kerning sections whose data starts at
  file position 96: the small table with its first characters in the order \<^verbatim>\<open>L\<close>,
  \<^verbatim>\<open>A\<close>, the same in ascending order, and a section with no first character.
\<close>

definition exampleHeader :: "uint32 \<Rightarrow> byte list" where
  "exampleHeader totalFileSize =
     [0x46, 0x46, 0x4E, 0x54, 0xFE, 0xFF, 0x00, 0x14, 0x03, 0x00, 0x00, 0x00]
     @ put32 totalFileSize @ [0x00, 0x01, 0x00, 0x00]"

definition exampleBody :: "byte list" where
  "exampleBody = finfRaw exampleEncoded @ tglpRaw exampleEncoded @ cwdhsRaw exampleEncoded
                 @ cmapsRaw exampleEncoded"

definition unsortedKerningSection :: "byte list" where
  "unsortedKerningSection =
     [0x4B, 0x52, 0x4E, 0x47, 0x00, 0x00, 0x00, 0x24,
      0x00, 0x02, 0x00, 0x4C, 0x00, 0x05, 0x00, 0x41, 0x00, 0x08,
      0x00, 0x01, 0x00, 0x56, 0xFF, 0xFF,
      0x00, 0x02, 0x00, 0x56, 0xFF, 0xFF, 0x00, 0x57, 0xFF, 0xFE,
      0x00, 0x00]"

definition sortedKerningSection :: "byte list" where
  "sortedKerningSection =
     [0x4B, 0x52, 0x4E, 0x47, 0x00, 0x00, 0x00, 0x24,
      0x00, 0x02, 0x00, 0x41, 0x00, 0x05, 0x00, 0x4C, 0x00, 0x0A,
      0x00, 0x02, 0x00, 0x56, 0xFF, 0xFF, 0x00, 0x57, 0xFF, 0xFE,
      0x00, 0x01, 0x00, 0x56, 0xFF, 0xFF,
      0x00, 0x00]"

definition emptyKerningSection :: "byte list" where
  "emptyKerningSection =
     [0x4B, 0x52, 0x4E, 0x47, 0x00, 0x00, 0x00, 0x0C, 0x00, 0x00, 0x00, 0x00]"

text \<open>A \<^verbatim>\<open>sort.Slice\<close> for the examples: a stable sort by glyph index.\<close>

definition keySort ::
  "(AsciiIndexPair \<Rightarrow> AsciiIndexPair \<Rightarrow> bool) \<Rightarrow> AsciiIndexPair list \<Rightarrow> AsciiIndexPair list" where
  "keySort lessFn = sort_key (\<lambda>p. unat (CharIndex p))"

definition emptyKerningBuffer :: "byte list" where
  "emptyKerningBuffer = exampleHeader 100 @ exampleBody @ emptyKerningSection"

text \<open>The document that the decoder returns on \<open>emptyKerningBuffer\<close>.\<close>

definition emptyKerningDocument :: "(unit, unit, unit, unit) BFFNT" where
  "emptyKerningDocument =
     exampleDocument
       \<lparr> FFNT := (FFNT exampleDocument) \<lparr> TotalFileSize := 100 \<rparr>,
         KRNG := \<lparr> KRNG_MagicHeader = KRNG_MAGIC_HEADER, KRNG_SectionSize = 12,
                   KerningTable = Map.empty \<rparr> \<rparr>"

text \<open>
  A document whose kerning table has the one entry \<^verbatim>\<open>A\<close> with 16382 pairs, which make
  65536 bytes of section data, and the buffer of 65632 bytes that the encoder writes for
  it.
\<close>

definition widePairs :: "kerningPair list" where
  "widePairs = replicate 16382 examplePair"

definition wideDocument :: "(unit, unit, unit, unit) BFFNT" where
  "wideDocument =
     exampleDocument \<lparr> KRNG := \<lparr> KRNG_MagicHeader = [], KRNG_SectionSize = 0,
                                 KerningTable = [0x41 \<mapsto> widePairs] \<rparr> \<rparr>"

definition wideKerningSection :: "byte list" where
  "wideKerningSection =
     [0x4B, 0x52, 0x4E, 0x47, 0x00, 0x01, 0x00, 0x08,
      0x00, 0x01, 0x00, 0x41, 0x00, 0x03, 0x3F, 0xFE]
     @ concat (replicate 16382 [0x00, 0x56, 0xFF, 0xFF])"

definition wideBuffer :: "byte list" where
  "wideBuffer = exampleHeader 65632 @ exampleBody @ wideKerningSection"

section \<open>Facts about the primitives\<close>

lemma unat_byte_lt: "unat (x :: byte) < 256"
  using unsigned_less [of x, where 'a = nat] by simp

lemma unat_u16_lt: "unat (x :: uint16) < 65536"
  using unsigned_less [of x, where 'a = nat] by simp

lemma unat_u32_lt: "unat (x :: uint32) < 4294967296"
  using unsigned_less [of x, where 'a = nat] by simp

lemma unat_of_nat8: "n < 256 \<Longrightarrow> unat (word_of_nat n :: byte) = n"
  by (simp add: unat_of_nat)

lemma unat_of_nat16: "n < 65536 \<Longrightarrow> unat (word_of_nat n :: uint16) = n"
  by (simp add: unat_of_nat)

lemma unat_of_nat32: "n < 4294967296 \<Longrightarrow> unat (word_of_nat n :: uint32) = n"
  by (simp add: unat_of_nat)

lemma unat_get16: "unat (get16 (a # b # rest)) = unat a * 256 + unat b"
proof -
  have "unat a * 256 + unat b < 65536"
    using unat_byte_lt [of a] unat_byte_lt [of b] by linarith
  then show ?thesis
    unfolding get16_def by (simp only: unat_of_nat16 nth_Cons_0 nth_Cons_Suc One_nat_def)
qed

lemma get16_Cons2: "get16 (a # b # rest) = get16 [a, b]"
  by (simp add: get16_def)

lemma get16_put16: "get16 (put16 v @ rest) = v"
proof -
  have a: "unat v div 256 < 256"
    using unat_u16_lt [of v] by (simp add: less_mult_imp_div_less)
  have "unat (get16 (put16 v @ rest)) = unat v"
    unfolding put16_def using a by (simp add: unat_get16 unat_of_nat8)
  then show ?thesis by (simp add: word_unat_eq_iff)
qed

lemma put16_get16: "put16 (get16 (a # b # rest)) = [a, b]"
  unfolding put16_def unat_get16
  using unat_byte_lt [of a] unat_byte_lt [of b] by simp

lemma length_put16 [simp]: "length (put16 v) = 2"
  by (simp add: put16_def)

lemma length_put32 [simp]: "length (put32 v) = 4"
  by (simp add: put32_def)

lemma unat_get32:
  "unat (get32 (a # b # c # d # rest)) = unat (get16 [a, b]) * 65536 + unat (get16 [c, d])"
proof -
  have "unat (get16 [a, b]) * 65536 + unat (get16 [c, d]) < 4294967296"
    using unat_u16_lt [of "get16 [a, b]"] unat_u16_lt [of "get16 [c, d]"] by linarith
  then show ?thesis
    unfolding get32_def
    by (simp add: unat_of_nat32 get16_Cons2 [of c d rest] del: of_nat_add of_nat_mult)
qed

lemma get32_put32: "get32 (put32 v @ rest) = v"
proof -
  have a: "unat v div 65536 < 65536"
    using unat_u32_lt [of v] by (simp add: less_mult_imp_div_less)
  obtain p q r s where pq: "put16 (word_of_nat (unat v div 65536)) = [p, q]"
    and rs: "put16 (word_of_nat (unat v mod 65536)) = [r, s]"
    by (simp add: put16_def)
  have hi: "get16 [p, q] = word_of_nat (unat v div 65536)"
    using get16_put16 [of "word_of_nat (unat v div 65536)" "[]"] pq by simp
  have lo: "get16 [r, s] = word_of_nat (unat v mod 65536)"
    using get16_put16 [of "word_of_nat (unat v mod 65536)" "[]"] rs by simp
  have "unat (get32 (put32 v @ rest)) = unat v"
    unfolding put32_def pq rs using a
    by (simp add: unat_get32 hi lo unat_of_nat16)
  then show ?thesis by (simp add: word_unat_eq_iff)
qed

lemma put32_get32: "put32 (get32 (a # b # c # d # rest)) = [a, b, c, d]"
  unfolding put32_def unat_get32
  using unat_u16_lt [of "get16 [a, b]"] unat_u16_lt [of "get16 [c, d]"]
  by (simp add: put16_get16)

lemma andThen_Inr [simp]: "andThen (Inr x) f = f x"
  by (simp add: andThen_def)

lemma andThen_Inl [simp]: "andThen (Inl e) f = Inl e"
  by (simp add: andThen_def)

lemma andThen_eq_Inr:
  "andThen m f = Inr y \<longleftrightarrow> (\<exists>x. m = Inr x \<and> f x = Inr y)"
  by (cases m) simp_all

section \<open>Container header decode\<close>

lemma put16_get16_take: "2 \<le> length xs \<Longrightarrow> put16 (get16 xs) = take 2 xs"
proof -
  assume "2 \<le> length xs"
  then obtain a b rest where "xs = a # b # rest"
    by (cases xs; cases "tl xs") auto
  then show ?thesis by (simp add: put16_get16)
qed

lemma put32_get32_take: "4 \<le> length xs \<Longrightarrow> put32 (get32 xs) = take 4 xs"
proof -
  assume "4 \<le> length xs"
  then obtain a b c d rest where "xs = a # b # c # d # rest"
    by (cases xs; cases "tl xs"; cases "tl (tl xs)"; cases "tl (tl (tl xs))") auto
  then show ?thesis by (simp add: put32_get32)
qed

lemma FFNT_Decode_fields:
  assumes "20 \<le> length (upto_cap raw)"
  shows "FFNT_Decode raw =
           Inr \<lparr> MagicHeader = take 4 (upto_cap raw),
                 Endianness = get16 (drop 4 (upto_cap raw)),
                 SectionSize = get16 (drop 6 (upto_cap raw)),
                 Version = get32 (drop 8 (upto_cap raw)),
                 TotalFileSize = get32 (drop 12 (upto_cap raw)),
                 BlockReadNum = get32 (drop 16 (upto_cap raw)) \<rparr>"
  using assms
  by (simp add: FFNT_Decode_def FFNT_HEADER_SIZE_def reslice_def assertEqual_def
      Uint16_def Uint32_def contents_def)

text \<open>
  C7. The decoder of the container header takes \<^verbatim>\<open>raw[0:20]\<close>, which Go checks against
  the capacity of \<open>raw\<close>, and then asserts that what it took has 20 bytes, which it has
  whenever the slice expression returns.  So the decoder fails (the slice expression
  panics, which is the truncated-input failure) on the buffers whose capacity is below
  20, and on every other buffer it returns the magic (bytes 0..4), the endianness
  (4..6), the header size (6..8), the version (8..12), the total file size (12..16) and
  the block-read hint (16..20) of the backing array, each read big-endian; for a buffer
  of at least 20 bytes these are bytes of the buffer.  A buffer shorter than 20 bytes
  with capacity for 20 does not fail: on \<open>shortFile\<close>, 10 bytes long, the decoder
  returns a header whose total file size and block-read hint are read past the end of
  the file.
\<close>

theorem C7_header_decode:
  "(length (upto_cap raw) < 20 \<longrightarrow> FFNT_Decode raw = Inl TruncatedInput) \<and>
   (20 \<le> length (upto_cap raw) \<longrightarrow>
      (\<exists>h. FFNT_Decode raw = Inr h \<and>
           MagicHeader h = take 4 (upto_cap raw) \<and>
           put16 (Endianness h) = take 2 (drop 4 (upto_cap raw)) \<and>
           put16 (SectionSize h) = take 2 (drop 6 (upto_cap raw)) \<and>
           put32 (Version h) = take 4 (drop 8 (upto_cap raw)) \<and>
           put32 (TotalFileSize h) = take 4 (drop 12 (upto_cap raw)) \<and>
           put32 (BlockReadNum h) = take 4 (drop 16 (upto_cap raw)))) \<and>
   (20 \<le> slen raw \<and> slen raw \<le> length (upto_cap raw) \<longrightarrow>
      (\<exists>h. FFNT_Decode raw = Inr h \<and>
           MagicHeader h = take 4 (contents raw) \<and>
           put16 (Endianness h) = take 2 (drop 4 (contents raw)) \<and>
           put16 (SectionSize h) = take 2 (drop 6 (contents raw)) \<and>
           put32 (Version h) = take 4 (drop 8 (contents raw)) \<and>
           put32 (TotalFileSize h) = take 4 (drop 12 (contents raw)) \<and>
           put32 (BlockReadNum h) = take 4 (drop 16 (contents raw)))) \<and>
   slen shortFile = 10 \<and>
   FFNT_Decode shortFile =
     Inr \<lparr> MagicHeader = [0x46, 0x46, 0x4E, 0x54], Endianness = 0xFEFF, SectionSize = 0x14,
           Version = 0x03000000, TotalFileSize = 0, BlockReadNum = 0 \<rparr>"
proof (intro conjI impI)
  assume "length (upto_cap raw) < 20"
  then show "FFNT_Decode raw = Inl TruncatedInput"
    by (simp add: FFNT_Decode_def FFNT_HEADER_SIZE_def reslice_def)
next
  assume "20 \<le> length (upto_cap raw)"
  then show "\<exists>h. FFNT_Decode raw = Inr h \<and>
           MagicHeader h = take 4 (upto_cap raw) \<and>
           put16 (Endianness h) = take 2 (drop 4 (upto_cap raw)) \<and>
           put16 (SectionSize h) = take 2 (drop 6 (upto_cap raw)) \<and>
           put32 (Version h) = take 4 (drop 8 (upto_cap raw)) \<and>
           put32 (TotalFileSize h) = take 4 (drop 12 (upto_cap raw)) \<and>
           put32 (BlockReadNum h) = take 4 (drop 16 (upto_cap raw))"
    by (simp add: FFNT_Decode_fields put16_get16_take put32_get32_take)
next
  assume a: "20 \<le> slen raw \<and> slen raw \<le> length (upto_cap raw)"
  then have cap: "20 \<le> length (upto_cap raw)" by simp
  have t: "take k (drop d (take (slen raw) (upto_cap raw))) = take k (drop d (upto_cap raw))"
    if "d + k \<le> 20" for k d
  proof -
    from that a have "k \<le> slen raw - d" by linarith
    then show ?thesis by (simp add: drop_take min_def)
  qed
  show "\<exists>h. FFNT_Decode raw = Inr h \<and>
           MagicHeader h = take 4 (contents raw) \<and>
           put16 (Endianness h) = take 2 (drop 4 (contents raw)) \<and>
           put16 (SectionSize h) = take 2 (drop 6 (contents raw)) \<and>
           put32 (Version h) = take 4 (drop 8 (contents raw)) \<and>
           put32 (TotalFileSize h) = take 4 (drop 12 (contents raw)) \<and>
           put32 (BlockReadNum h) = take 4 (drop 16 (contents raw))"
    unfolding contents_def
    using cap t [of 0 4] t [of 4 2] t [of 6 2] t [of 8 4] t [of 12 4] t [of 16 4]
    by (simp add: FFNT_Decode_fields put16_get16_take put32_get32_take)
next
  show "slen shortFile = 10" by (simp add: shortFile_def)
next
  have "20 \<le> length (upto_cap shortFile)" by (simp add: shortFile_def)
  from FFNT_Decode_fields [OF this]
  show "FFNT_Decode shortFile =
     Inr \<lparr> MagicHeader = [0x46, 0x46, 0x4E, 0x54], Endianness = 0xFEFF, SectionSize = 0x14,
           Version = 0x03000000, TotalFileSize = 0, BlockReadNum = 0 \<rparr>"
    by (simp add: shortFile_def get16_def get32_def)
qed

theorem C7_header_decode_witness:
  "FFNT_Decode shortBuffer = Inl TruncatedInput \<and>
   (\<exists>h. FFNT_Decode headerBuffer = Inr h \<and>
        MagicHeader h = [0x46, 0x46, 0x4E, 0x54] \<and>
        put32 (TotalFileSize h) = [0x00, 0x00, 0x01, 0x00]) \<and>
   (\<exists>h. FFNT_Decode shortFile = Inr h \<and>
        MagicHeader h = [0x46, 0x46, 0x4E, 0x54] \<and>
        put32 (TotalFileSize h) = [0x00, 0x00, 0x00, 0x00])"
proof -
  have a: "length (upto_cap shortBuffer) < 20" by (simp add: shortBuffer_def whole_def)
  have b: "20 \<le> slen headerBuffer \<and> slen headerBuffer \<le> length (upto_cap headerBuffer)"
    by (simp add: headerBuffer_def whole_def)
  have c: "20 \<le> length (upto_cap shortFile)" by (simp add: shortFile_def)
  from C7_header_decode [of shortBuffer] a
  have 1: "FFNT_Decode shortBuffer = Inl TruncatedInput" by blast
  from C7_header_decode [of headerBuffer] b
  have "\<exists>h. FFNT_Decode headerBuffer = Inr h \<and>
           MagicHeader h = take 4 (contents headerBuffer) \<and>
           put32 (TotalFileSize h) = take 4 (drop 12 (contents headerBuffer))" by blast
  then have 2: "\<exists>h. FFNT_Decode headerBuffer = Inr h \<and>
        MagicHeader h = [0x46, 0x46, 0x4E, 0x54] \<and>
        put32 (TotalFileSize h) = [0x00, 0x00, 0x01, 0x00]"
    by (simp add: headerBuffer_def whole_def contents_def)
  from C7_header_decode [of shortFile] c
  have "\<exists>h. FFNT_Decode shortFile = Inr h \<and>
           MagicHeader h = take 4 (upto_cap shortFile) \<and>
           put32 (TotalFileSize h) = take 4 (drop 12 (upto_cap shortFile))" by blast
  moreover have "replicate 4 (0 :: byte) = [0, 0, 0, 0]"
    by (simp add: numeral_eq_Suc)
  ultimately have 3: "\<exists>h. FFNT_Decode shortFile = Inr h \<and>
        MagicHeader h = [0x46, 0x46, 0x4E, 0x54] \<and>
        put32 (TotalFileSize h) = [0x00, 0x00, 0x00, 0x00]"
    by (simp add: shortFile_def)
  from 1 2 3 show ?thesis by blast
qed

section \<open>Kerning lookup\<close>

lemma find_Some_holds: "find P xs = Some x \<Longrightarrow> x \<in> set xs \<and> P x"
  by (induction xs) (auto split: if_splits)

text \<open>
  C6, as amended.  \<open>Kern\<close> is a total function to a kerning value, so it never reports
  an error.  The keys of the table are 16-bit codes and the entry of the first character
  is looked up under \<^verbatim>\<open>uint16(r1)\<close>, the low 16 bits of the rune.  The result is 0
  whenever the table has no entry for the low 16 bits of the first character, or that
  entry's pairs have no pair whose second character, widened to a rune, is the second
  argument.  The empty table is the case where no code has an entry.
\<close>

theorem C6_kern_absent_is_zero:
  "(KerningTable krng (ucast a) = None \<or>
    (\<exists>pairs. KerningTable krng (ucast a) = Some pairs \<and>
       (\<forall>s \<in> set pairs. ucast (SecondChar s) \<noteq> b)))
   \<Longrightarrow> Kern krng a b = 0"
proof (cases "KerningTable krng (ucast a)")
  case None
  then show ?thesis by (simp add: Kern_def)
next
  case (Some pairs)
  assume "KerningTable krng (ucast a) = None \<or>
    (\<exists>pairs. KerningTable krng (ucast a) = Some pairs \<and>
       (\<forall>s \<in> set pairs. ucast (SecondChar s) \<noteq> b))"
  with Some have no: "\<forall>s \<in> set pairs. ucast (SecondChar s) \<noteq> b" by simp
  have "find (\<lambda>s. b = ucast (SecondChar s)) pairs = None"
  proof (cases "find (\<lambda>s. b = ucast (SecondChar s)) pairs")
    case None
    then show ?thesis .
  next
    case (Some s)
    from find_Some_holds [OF this] no show ?thesis by blast
  qed
  with Some show ?thesis by (simp add: Kern_def)
qed

theorem C6_kern_absent_is_zero_witness:
  "Kern \<lparr> KRNG_MagicHeader = [], KRNG_SectionSize = 0, KerningTable = Map.empty \<rparr> 0x41 0x56 = 0 \<and>
   Kern \<lparr> KRNG_MagicHeader = [], KRNG_SectionSize = 0,
          KerningTable = [0x41 \<mapsto> [\<lparr> SecondChar = 0x56, KerningValue = 0xFFFF \<rparr>]] \<rparr>
        0x41 0x57 = 0"
  using C6_kern_absent_is_zero [of "\<lparr> KRNG_MagicHeader = [], KRNG_SectionSize = 0,
          KerningTable = Map.empty \<rparr>" "0x41" "0x56"]
    C6_kern_absent_is_zero [of "\<lparr> KRNG_MagicHeader = [], KRNG_SectionSize = 0,
          KerningTable = [0x41 \<mapsto> [\<lparr> SecondChar = 0x56, KerningValue = 0xFFFF \<rparr>]] \<rparr>"
          "0x41" "0x57"]
  by simp

text \<open>
  The claim as it is stated fails for a first character outside 16 bits: the table
  \<open>capitalA\<close> has the one key \<^verbatim>\<open>0x41\<close>, so the rune \<^verbatim>\<open>0x10041\<close> has no entry in it, and
  yet the lookup for that rune and \<^verbatim>\<open>V\<close> returns the kerning -1 of the pair \<^verbatim>\<open>(A, V)\<close>.
\<close>

theorem C6_rune_outside_16_bits_counterexample:
  "dom (KerningTable capitalA) = {0x41} \<and>
   (ucast (0x41 :: uint16) :: rune) \<noteq> 0x10041 \<and>
   Kern capitalA 0x10041 0x56 = 0xFFFF \<and>
   Kern capitalA 0x10041 0x56 \<noteq> 0"
proof -
  have k: "(ucast (0x10041 :: rune) :: uint16) = 0x41" by simp
  have v: "(ucast (0x56 :: uint16) :: rune) = 0x56" by simp
  have "Kern capitalA 0x10041 0x56 = 0xFFFF"
    unfolding Kern_def k by (simp add: capitalA_def examplePair_def)
  then show ?thesis by (simp add: capitalA_def)
qed

section \<open>The enumeration of glyph indices\<close>

lemma scanCMAP_ok:
  "\<forall>j \<in> set js. j < length ci \<Longrightarrow>
   scanCMAP ca ci js acc =
     Inr (acc @ filter (\<lambda>p. CharIndex p \<noteq> 65535)
                  (map (\<lambda>j. \<lparr> CharAscii = ca ! j, CharIndex = ci ! j \<rparr>) js))"
  by (induction js arbitrary: acc) auto

lemma cmapEntries_nth:
  assumes "length (CMAP_CharAscii c) \<le> length (CMAP_CharIndex c)"
  shows "map (\<lambda>j. \<lparr> CharAscii = CMAP_CharAscii c ! j, CharIndex = CMAP_CharIndex c ! j \<rparr>)
           [0 ..< length (CMAP_CharAscii c)] = cmapEntries c"
  using assms by (auto simp: cmapEntries_def intro!: nth_equalityI)

lemma scanCMAPs_ok:
  "\<forall>c \<in> set cs. length (CMAP_CharAscii c) \<le> length (CMAP_CharIndex c) \<Longrightarrow>
   scanCMAPs cs acc =
     Inr (acc @ filter (\<lambda>p. CharIndex p \<noteq> 65535) (concat (map cmapEntries cs)))"
proof (induction cs arbitrary: acc)
  case Nil
  then show ?case by simp
next
  case (Cons c cs)
  have len: "length (CMAP_CharAscii c) \<le> length (CMAP_CharIndex c)"
    using Cons.prems by simp
  then have "\<forall>j \<in> set [0 ..< length (CMAP_CharAscii c)]. j < length (CMAP_CharIndex c)"
    by auto
  from scanCMAP_ok [OF this] Cons show ?case
    by (simp add: cmapEntries_nth [OF len])
qed

lemma sorted_by_CharIndex:
  "sorted_wrt (\<lambda>a b. \<not> CharIndex b < CharIndex a) ps
   \<Longrightarrow> sorted (map (\<lambda>p. unat (CharIndex p)) ps)"
  by (simp add: sorted_map sorted_wrt_mono_rel [of ps] word_less_nat_alt not_less)

text \<open>
  C8. For a document whose map blocks have a glyph index for each of their code points
  (the parallel slices \<^verbatim>\<open>CharAscii\<close> and \<^verbatim>\<open>CharIndex\<close> of a block as the decoder builds
  them), \<open>GlyphIndexes\<close> returns, and the pairs it returns are exactly the entries of the
  chain of map blocks whose glyph index is not the sentinel \<^verbatim>\<open>0xFFFF\<close>, each as many
  times as it occurs, in ascending order of glyph index.
\<close>

theorem C8_glyph_indexes:
  assumes "sortsSlices sortSlice (\<lambda>p q. CharIndex p < CharIndex q)"
    and "\<forall>cmap \<in> set (CMAPs b). length (CMAP_CharAscii cmap) \<le> length (CMAP_CharIndex cmap)"
  shows "\<exists>pairSlice. GlyphIndexes sortSlice b = Inr pairSlice \<and>
           mset pairSlice = mset (filter (\<lambda>p. CharIndex p \<noteq> 0xFFFF)
                                    (concat (map cmapEntries (CMAPs b)))) \<and>
           sorted (map (\<lambda>p. unat (CharIndex p)) pairSlice)"
  using assms(1) scanCMAPs_ok [OF assms(2), of "[]"]
  by (simp add: GlyphIndexes_def sortsSlices_def sorted_by_CharIndex)

theorem C8_glyph_indexes_witness:
  "\<exists>pairSlice.
     GlyphIndexes (\<lambda>_. sort_key (\<lambda>p. unat (CharIndex p)))
       \<lparr> FFNT = \<lparr> MagicHeader = [], Endianness = 0, SectionSize = 0, Version = 0,
                  TotalFileSize = 0, BlockReadNum = 0 \<rparr>,
         FINF = (), TGLP = (), CWDHs = [],
         CMAPs = [\<lparr> CMAP_CharAscii = [0x41, 0x42, 0x43], CMAP_CharIndex = [1, 0xFFFF, 0] \<rparr>],
         KRNG = \<lparr> KRNG_MagicHeader = [], KRNG_SectionSize = 0, KerningTable = Map.empty \<rparr>,
         CWDHIndexMap = Map.empty \<rparr> = Inr pairSlice \<and>
     mset pairSlice = {# \<lparr> CharAscii = 0x41, CharIndex = 1 \<rparr>,
                         \<lparr> CharAscii = 0x43, CharIndex = 0 \<rparr> #} \<and>
     sorted (map (\<lambda>p. unat (CharIndex p)) pairSlice)"
proof -
  have srt: "sortsSlices (\<lambda>_. sort_key (\<lambda>p. unat (CharIndex p)))
               (\<lambda>(p :: AsciiIndexPair) q. CharIndex p < CharIndex q)"
    unfolding sortsSlices_def
  proof (intro allI conjI)
    fix xs :: "AsciiIndexPair list"
    show "mset (sort_key (\<lambda>p. unat (CharIndex p)) xs) = mset xs" by simp
    have "sorted (map (\<lambda>p. unat (CharIndex p)) (sort_key (\<lambda>p. unat (CharIndex p)) xs))"
      by (rule sorted_sort_key)
    then show "sorted_wrt (\<lambda>a b. \<not> CharIndex b < CharIndex a)
                 (sort_key (\<lambda>p. unat (CharIndex p)) xs)"
      by (simp add: sorted_map word_less_nat_alt not_less)
  qed
  show ?thesis
    using C8_glyph_indexes [OF srt, of
        "\<lparr> FFNT = \<lparr> MagicHeader = [], Endianness = 0, SectionSize = 0, Version = 0,
                  TotalFileSize = 0, BlockReadNum = 0 \<rparr>,
         FINF = (), TGLP = (), CWDHs = [],
         CMAPs = [\<lparr> CMAP_CharAscii = [0x41, 0x42, 0x43], CMAP_CharIndex = [1, 0xFFFF, 0] \<rparr>],
         KRNG = \<lparr> KRNG_MagicHeader = [], KRNG_SectionSize = 0, KerningTable = Map.empty \<rparr>,
         CWDHIndexMap = Map.empty \<rparr>"]
    by (simp add: cmapEntries_def)
qed

section \<open>Kerning table decode\<close>



lemma all_less_Suc_shift: "(\<forall>j < Suc k. P j) \<longleftrightarrow> P 0 \<and> (\<forall>j < k. P (Suc j))"
proof
  assume "\<forall>j < Suc k. P j"
  then show "P 0 \<and> (\<forall>j < k. P (Suc j))" by simp
next
  assume a: "P 0 \<and> (\<forall>j < k. P (Suc j))"
  show "\<forall>j < Suc k. P j"
  proof (intro allI impI)
    fix j assume "j < Suc k"
    with a show "P j" by (cases j) simp_all
  qed
qed

lemma all_le_Suc_shift: "(\<forall>j \<le> Suc k. P j) \<longleftrightarrow> P 0 \<and> (\<forall>j \<le> k. P (Suc j))"
  using all_less_Suc_shift [of "Suc k" P] by (simp add: less_Suc_eq_le)

lemma Index_Some_iff:
  "Index s sub = Some i \<longleftrightarrow>
     i \<le> length s \<and> take (length sub) (drop i s) = sub \<and>
     (\<forall>j < i. take (length sub) (drop j s) \<noteq> sub)"
proof (induction s arbitrary: i)
  case Nil
  then show ?case by auto
next
  case (Cons x xs)
  show ?case
  proof (cases "take (length sub) (x # xs) = sub")
    case True
    show ?thesis
    proof (cases i)
      case 0
      with True show ?thesis by simp
    next
      case (Suc k)
      with True show ?thesis by (simp add: all_less_Suc_shift)
    qed
  next
    case False
    show ?thesis
    proof (cases i)
      case 0
      with False show ?thesis by simp
    next
      case (Suc k)
      with False Cons.IH [of k] show ?thesis by (simp add: all_less_Suc_shift)
    qed
  qed
qed

lemma Index_None_iff:
  "Index s sub = None \<longleftrightarrow> (\<forall>j \<le> length s. take (length sub) (drop j s) \<noteq> sub)"
proof (induction s)
  case Nil
  then show ?case by auto
next
  case (Cons x xs)
  then show ?case by (simp add: all_le_Suc_shift)
qed



lemma reslice_eq_Inr:
  "reslice s lo hi = Inr r \<longleftrightarrow>
     lo \<le> hi \<and> hi \<le> length (upto_cap s) \<and> r = Slice (drop lo (upto_cap s)) (hi - lo)"
  by (auto simp: reslice_def)

lemma Uint16_eq_Inr: "Uint16 s = Inr v \<longleftrightarrow> 2 \<le> slen s \<and> v = get16 (upto_cap s)"
  by (auto simp: Uint16_def)

lemma read16_eq_Inr:
  "andThen (reslice s lo hi) Uint16 = Inr v \<longleftrightarrow>
     lo + 2 \<le> hi \<and> hi \<le> length (upto_cap s) \<and> v = get16 (drop lo (upto_cap s))"
  by (auto simp: andThen_eq_Inr reslice_eq_Inr Uint16_eq_Inr)

lemma read16_then_eq_Inr:
  "andThen (andThen (reslice s lo hi) Uint16) f = Inr y \<longleftrightarrow>
     lo + 2 \<le> hi \<and> hi \<le> length (upto_cap s) \<and> f (get16 (drop lo (upto_cap s))) = Inr y"
  by (auto simp: reslice_def Uint16_def)

lemma readPairs_positions:
  "readPairs pd pos n = Inr ps \<Longrightarrow>
   length ps = n \<and>
   (\<forall>j < n. SecondChar (ps ! j) = get16 (drop (pos + 4 * j) (upto_cap pd)) \<and>
            KerningValue (ps ! j) = get16 (drop (pos + 4 * j + 2) (upto_cap pd)))"
proof (induction n arbitrary: pos ps)
  case 0
  then show ?case by simp
next
  case (Suc n)
  define sc where "sc = get16 (drop pos (upto_cap pd))"
  define kv where "kv = get16 (drop (pos + 2) (upto_cap pd))"
  from Suc.prems have
    "andThen (readPairs pd (pos + 4) n)
       (\<lambda>rest. Inr (\<lparr> SecondChar = sc, KerningValue = kv \<rparr> # rest)) = Inr ps"
    by (simp add: read16_then_eq_Inr sc_def kv_def)
  then obtain rest where
    rest: "readPairs pd (pos + 4) n = Inr rest" and
    ps: "ps = \<lparr> SecondChar = sc, KerningValue = kv \<rparr> # rest"
    by (auto simp: andThen_eq_Inr)
  note sc = sc_def and kv = kv_def
  from Suc.IH [OF rest] have len: "length rest = n"
    and nth: "\<And>j. j < n \<Longrightarrow>
      SecondChar (rest ! j) = get16 (drop (pos + 4 + 4 * j) (upto_cap pd)) \<and>
      KerningValue (rest ! j) = get16 (drop (pos + 4 + 4 * j + 2) (upto_cap pd))"
    by auto
  show ?case
  proof (intro conjI allI impI)
    show "length ps = Suc n" using ps len by simp
  next
    fix j assume j: "j < Suc n"
    show "SecondChar (ps ! j) = get16 (drop (pos + 4 * j) (upto_cap pd))"
    proof (cases j)
      case 0
      then show ?thesis using ps sc by simp
    next
      case (Suc k)
      with j nth [of k] ps show ?thesis by (simp add: add.assoc)
    qed
  next
    fix j assume j: "j < Suc n"
    show "KerningValue (ps ! j) = get16 (drop (pos + 4 * j + 2) (upto_cap pd))"
    proof (cases j)
      case 0
      then show ?thesis using ps kv by simp
    next
      case (Suc k)
      with j nth [of k] ps show ?thesis by (simp add: add.assoc)
    qed
  qed
qed

lemma offset_wrap: "(off + 0x8000) * 2 = off * (2 :: uint16)"
  by (simp add: distrib_right)

lemma unat_double: "unat (off * (2 :: uint16)) = 2 * unat off mod 65536"
  by (simp add: unat_word_ariths mult.commute)

lemma unat_double_plus2: "unat (off * (2 :: uint16) + 2) = (2 * unat off + 2) mod 65536"
  by (simp add: unat_word_ariths mult.commute mod_Suc_Suc_eq)

text \<open>
  C9. In the decoder's loop over the first characters, the entry at \<open>dataPos\<close> has its
  stored offset at \<open>dataPos + 2\<close>, and its pairs are read by \<open>readPairArray\<close> from that
  offset.  The count of pairs is read at byte \<open>2 * off mod 2 ^ 16\<close> of the section
  data and pair \<open>j\<close> at byte \<open>(2 * off + 2) mod 2 ^ 16 + 4 * j\<close>: the doubling and the
  additions are 16-bit.  So a stored offset of \<^verbatim>\<open>0x8000\<close> or more reads what the offset
  less \<^verbatim>\<open>0x8000\<close> reads, not bytes past position 65535.
\<close>

theorem C9_offset_doubling_wraps:
  "readPairArray data (off + 0x8000) = readPairArray data off \<and>
   (readPairArray data off = Inr ps \<longrightarrow>
      length ps = unat (get16 (drop (2 * unat off mod 65536) (upto_cap data))) \<and>
      (\<forall>j < length ps.
         SecondChar (ps ! j) =
           get16 (drop ((2 * unat off + 2) mod 65536 + 4 * j) (upto_cap data)) \<and>
         KerningValue (ps ! j) =
           get16 (drop ((2 * unat off + 2) mod 65536 + 4 * j + 2) (upto_cap data)))) \<and>
   (readFirstChars data (Suc n) dataPos totalRead kerningMap = Inr r \<longrightarrow>
      (\<exists>pairs. readPairArray data (get16 (drop (dataPos + 2) (upto_cap data))) = Inr pairs \<and>
         readFirstChars data n (dataPos + 4) (totalRead + 4 + 2 + 4 * length pairs)
           (kerningMap(get16 (drop dataPos (upto_cap data)) \<mapsto> pairs)) = Inr r))"
proof (intro conjI impI)
  show "readPairArray data (off + 0x8000) = readPairArray data off"
    by (simp only: readPairArray_def offset_wrap)
next
  assume a: "readPairArray data off = Inr ps"
  define cnt where "cnt = get16 (drop (unat (off * 2)) (upto_cap data))"
  from a have
    "andThen (reslice data (unat (off * 2 + 2)) (unat (off * 2 + 2 + cnt * 4)))
       (\<lambda>pairData. readPairs pairData 0 (unat cnt)) = Inr ps"
    by (simp add: readPairArray_def Let_def read16_then_eq_Inr cnt_def)
  then obtain pd where
    pd: "reslice data (unat (off * 2 + 2)) (unat (off * 2 + 2 + cnt * 4)) = Inr pd" and
    rd: "readPairs pd 0 (unat cnt) = Inr ps"
    by (auto simp: andThen_eq_Inr)
  note cnt = cnt_def
  from pd have "upto_cap pd = drop (unat (off * 2 + 2)) (upto_cap data)"
    by (auto simp: reslice_eq_Inr)
  then have cap: "upto_cap pd = drop ((2 * unat off + 2) mod 65536) (upto_cap data)"
    by (simp only: unat_double_plus2)
  have d1: "drop (4 * j) (upto_cap pd) =
            drop ((2 * unat off + 2) mod 65536 + 4 * j) (upto_cap data)" for j
    unfolding cap drop_drop by (simp only: add.commute)
  have d2: "drop (4 * j + 2) (upto_cap pd) =
            drop ((2 * unat off + 2) mod 65536 + 4 * j + 2) (upto_cap data)" for j
    unfolding cap drop_drop by (simp only: add.commute add.left_commute add.assoc)
  from readPairs_positions [OF rd] have len: "length ps = unat cnt"
    and nth: "\<And>j. j < unat cnt \<Longrightarrow>
       SecondChar (ps ! j) = get16 (drop (4 * j) (upto_cap pd)) \<and>
       KerningValue (ps ! j) = get16 (drop (4 * j + 2) (upto_cap pd))"
    by auto
  show "length ps = unat (get16 (drop (2 * unat off mod 65536) (upto_cap data)))"
    using len cnt by (simp add: unat_double)
  show "\<forall>j < length ps.
         SecondChar (ps ! j) =
           get16 (drop ((2 * unat off + 2) mod 65536 + 4 * j) (upto_cap data)) \<and>
         KerningValue (ps ! j) =
           get16 (drop ((2 * unat off + 2) mod 65536 + 4 * j + 2) (upto_cap data))"
    using nth len unfolding d1 d2 by simp
next
  assume "readFirstChars data (Suc n) dataPos totalRead kerningMap = Inr r"
  then show "\<exists>pairs. readPairArray data (get16 (drop (dataPos + 2) (upto_cap data))) = Inr pairs \<and>
         readFirstChars data n (dataPos + 4) (totalRead + 4 + 2 + 4 * length pairs)
           (kerningMap(get16 (drop dataPos (upto_cap data)) \<mapsto> pairs)) = Inr r"
    by (simp add: read16_then_eq_Inr) (auto simp: andThen_eq_Inr)
qed



theorem C9_offset_doubling_wraps_witness:
  "readPairArray (whole wrappedOffsetData) 0x8003 = readPairArray (whole wrappedOffsetData) 3 \<and>
   readPairArray (whole wrappedOffsetData) 0x8003 =
     Inr [\<lparr> SecondChar = 0x56, KerningValue = 0xFFFF \<rparr>] \<and>
   unat (get16 (drop 6 wrappedOffsetData)) = 1 \<and>
   get16 (drop 8 wrappedOffsetData) = 0x56 \<and>
   readFirstChars (whole wrappedOffsetData) 1 2 2 Map.empty =
     Inr (12, [0x41 \<mapsto> [\<lparr> SecondChar = 0x56, KerningValue = 0xFFFF \<rparr>]])"
proof -
  have rd: "readPairArray (whole wrappedOffsetData) 0x8003 =
              Inr [\<lparr> SecondChar = 0x56, KerningValue = 0xFFFF \<rparr>]"
    by (simp add: wrappedOffsetData_def readPairArray_def whole_def reslice_def Uint16_def
        get16_def)
  have lp: "readFirstChars (whole wrappedOffsetData) (Suc 0) 2 2 Map.empty =
              Inr (12, [0x41 \<mapsto> [\<lparr> SecondChar = 0x56, KerningValue = 0xFFFF \<rparr>]])"
    by (simp add: wrappedOffsetData_def readPairArray_def whole_def reslice_def Uint16_def
        get16_def)
  have cap: "upto_cap (whole wrappedOffsetData) = wrappedOffsetData"
    by (simp add: whole_def)
  from C9_offset_doubling_wraps [where data = "whole wrappedOffsetData" and off = 3
      and ps = "[\<lparr> SecondChar = 0x56, KerningValue = 0xFFFF \<rparr>]" and n = 0 and dataPos = 2
      and totalRead = 2 and kerningMap = Map.empty
      and r = "(12, [0x41 \<mapsto> [\<lparr> SecondChar = 0x56, KerningValue = 0xFFFF \<rparr>]])"]
    C9_offset_doubling_wraps [where data = "whole wrappedOffsetData" and off = "0x8003"
      and ps = "[\<lparr> SecondChar = 0x56, KerningValue = 0xFFFF \<rparr>]" and n = 0 and dataPos = 2
      and totalRead = 2 and kerningMap = Map.empty
      and r = "(12, [0x41 \<mapsto> [\<lparr> SecondChar = 0x56, KerningValue = 0xFFFF \<rparr>]])"]
    rd lp
  show ?thesis by (simp add: cap)
qed

lemma magic_occurrence_in_range:
  assumes "take 4 (drop i raw) = KRNG_MAGIC_HEADER"
  shows "i \<le> length raw"
proof (rule ccontr)
  assume "\<not> i \<le> length raw"
  then have "take 4 (drop i raw) = []" by simp
  with assms show False by (simp add: KRNG_MAGIC_HEADER_def)
qed


lemma Index_None_no_magic:
  assumes "Index s KRNG_MAGIC_HEADER = None"
  shows "\<forall>j. take 4 (drop j s) \<noteq> KRNG_MAGIC_HEADER"
proof (intro allI notI)
  fix j assume a: "take 4 (drop j s) = KRNG_MAGIC_HEADER"
  have len: "length KRNG_MAGIC_HEADER = 4" by (simp add: KRNG_MAGIC_HEADER_def)
  from magic_occurrence_in_range [OF a] assms a show False
    unfolding Index_None_iff len by blast
qed

lemma KRNG_Decode_at_eq_Inr:
  "KRNG_Decode_at verify krng raw i = Inr k \<longleftrightarrow>
     i + 10 \<le> length (upto_cap raw) \<and>
     8 \<le> unat (get32 (drop (i + 4) (upto_cap raw))) \<and>
     i + unat (get32 (drop (i + 4) (upto_cap raw))) \<le> length (upto_cap raw) \<and>
     (\<exists>totalRead t.
        readFirstChars
          (Slice (drop (i + 8) (upto_cap raw)) (unat (get32 (drop (i + 4) (upto_cap raw))) - 8))
          (unat (get16 (drop (i + 8) (upto_cap raw)))) 2 2 Map.empty = Inr (totalRead, t) \<and>
        totalRead \<le> unat (get32 (drop (i + 4) (upto_cap raw))) - 8 \<and>
        verify (take (unat (get32 (drop (i + 4) (upto_cap raw))) - 8 - totalRead)
                  (drop (i + 8 + totalRead) (upto_cap raw))) \<and>
        k = krng \<lparr> KRNG_MagicHeader := take 4 (drop i (upto_cap raw)),
                    KRNG_SectionSize := get32 (drop (i + 4) (upto_cap raw)),
                    KerningTable := t \<rparr>)"
  unfolding KRNG_Decode_at_def Let_def
  by (auto simp: reslice_def reslice_from_def assertEqual_def Uint16_def Uint32_def contents_def
      KRNG_HEADER_SIZE_def andThen_eq_Inr add.commute split: if_splits prod.splits)

lemma reslice_shift:
  assumes "0 < lo \<or> 0 < hi"
  shows "reslice (Slice (drop i arr) m) lo hi = reslice (Slice arr n) (i + lo) (i + hi)"
proof (cases "lo \<le> hi \<and> hi \<le> length arr - i")
  case True
  with assms have "i + hi \<le> length arr" by linarith
  with True show ?thesis by (simp add: reslice_def add.commute)
next
  case False
  then have "\<not> (i + lo \<le> i + hi \<and> i + hi \<le> length arr)" by linarith
  with False show ?thesis by (simp add: reslice_def)
qed

lemma KRNG_Decode_at_shift:
  "KRNG_Decode_at verify krng (Slice (drop i arr) m) 0 = KRNG_Decode_at verify krng (Slice arr n) i"
proof -
  have a: "reslice (Slice (drop i arr) m) 0 (0 + KRNG_HEADER_SIZE) =
           reslice (Slice arr n) i (i + KRNG_HEADER_SIZE)"
    using reslice_shift [of 0 "0 + KRNG_HEADER_SIZE" i arr m n]
    by (simp add: KRNG_HEADER_SIZE_def)
  have b: "reslice (Slice (drop i arr) m) (0 + KRNG_HEADER_SIZE) (0 + sz) =
           reslice (Slice arr n) (i + KRNG_HEADER_SIZE) (i + sz)" for sz
    using reslice_shift [of "0 + KRNG_HEADER_SIZE" "0 + sz" i arr m n]
    by (simp add: KRNG_HEADER_SIZE_def)
  show ?thesis
    unfolding KRNG_Decode_at_def Let_def a b by (rule refl)
qed

lemma magic_within_length:
  assumes "take 4 (drop i (take n arr)) = KRNG_MAGIC_HEADER"
  shows "i + 4 \<le> n \<and> take 4 (drop i arr) = KRNG_MAGIC_HEADER"
proof -
  have "length (take 4 (drop i (take n arr))) = 4"
    unfolding assms by (simp add: KRNG_MAGIC_HEADER_def)
  then have le: "i + 4 \<le> n" by simp
  then have "take 4 (drop i (take n arr)) = take 4 (drop i arr)"
    by (simp add: drop_take min_def)
  with assms le show ?thesis by simp
qed

lemma Index_at_start:
  assumes "take 4 s = KRNG_MAGIC_HEADER"
  shows "Index s KRNG_MAGIC_HEADER = Some 0"
proof -
  have len: "length KRNG_MAGIC_HEADER = 4" by (simp add: KRNG_MAGIC_HEADER_def)
  from assms show ?thesis by (simp add: Index_Some_iff len)
qed

text \<open>
  C10. The decoder searches the bytes of the buffer for the four bytes \<^verbatim>\<open>KRNG\<close>.  Where
  they occur nowhere, it returns and the table is what it was.  Where they occur, let
  \<open>i\<close> be the position of the first occurrence, with no condition on \<open>i\<close> (no
  alignment, no section boundary).  The decoder reads what starts at \<open>i\<close> as the
  kerning section: its result is that of decoding the buffer from \<open>i\<close> on, whatever
  the bytes before \<open>i\<close> are; and it returns exactly when the header at \<open>i\<close> and the
  count of first characters at \<open>i + 8\<close> lie within the capacity of the buffer, the
  section size read at \<open>i + 4\<close> is at least the 8 bytes of the header and ends within
  the capacity, the loop over the first characters returns on the data from \<open>i + 8\<close>
  having read no more than the size holds, and \<^verbatim>\<open>verifyLeftoverBytes\<close> lets the rest
  pass; the magic, the size and the table decoded are then the ones read there.
\<close>

theorem C10_kerning_section_found_by_scan:
  "((\<forall>j. take 4 (drop j (contents raw)) \<noteq> KRNG_MAGIC_HEADER) \<longrightarrow>
      KRNG_Decode verify krng raw = Inr krng) \<and>
   (take 4 (drop i (contents raw)) = KRNG_MAGIC_HEADER \<and>
    (\<forall>j < i. take 4 (drop j (contents raw)) \<noteq> KRNG_MAGIC_HEADER) \<longrightarrow>
      Index (contents raw) KRNG_MAGIC_HEADER = Some i \<and>
      KRNG_Decode verify krng raw =
        KRNG_Decode verify krng (Slice (drop i (upto_cap raw)) (slen raw - i)) \<and>
      (KRNG_Decode verify krng raw = Inr k \<longleftrightarrow>
         i + 10 \<le> length (upto_cap raw) \<and>
         8 \<le> unat (get32 (drop (i + 4) (upto_cap raw))) \<and>
         i + unat (get32 (drop (i + 4) (upto_cap raw))) \<le> length (upto_cap raw) \<and>
         (\<exists>totalRead t.
            readFirstChars
              (Slice (drop (i + 8) (upto_cap raw))
                 (unat (get32 (drop (i + 4) (upto_cap raw))) - 8))
              (unat (get16 (drop (i + 8) (upto_cap raw)))) 2 2 Map.empty
              = Inr (totalRead, t) \<and>
            totalRead \<le> unat (get32 (drop (i + 4) (upto_cap raw))) - 8 \<and>
            verify (take (unat (get32 (drop (i + 4) (upto_cap raw))) - 8 - totalRead)
                      (drop (i + 8 + totalRead) (upto_cap raw))) \<and>
            k = krng \<lparr> KRNG_MagicHeader := KRNG_MAGIC_HEADER,
                        KRNG_SectionSize := get32 (drop (i + 4) (upto_cap raw)),
                        KerningTable := t \<rparr>)))"
proof (intro conjI impI)
  have len: "length KRNG_MAGIC_HEADER = 4" by (simp add: KRNG_MAGIC_HEADER_def)
  assume "\<forall>j. take 4 (drop j (contents raw)) \<noteq> KRNG_MAGIC_HEADER"
  then have "Index (contents raw) KRNG_MAGIC_HEADER = None"
    unfolding Index_None_iff len by blast
  then show "KRNG_Decode verify krng raw = Inr krng"
    by (simp add: KRNG_Decode_def)
next
  assume a: "take 4 (drop i (contents raw)) = KRNG_MAGIC_HEADER \<and>
    (\<forall>j < i. take 4 (drop j (contents raw)) \<noteq> KRNG_MAGIC_HEADER)"
  have len: "length KRNG_MAGIC_HEADER = 4" by (simp add: KRNG_MAGIC_HEADER_def)
  from a magic_occurrence_in_range [of i "contents raw"]
  show idx: "Index (contents raw) KRNG_MAGIC_HEADER = Some i"
    by (simp add: Index_Some_iff len)
  obtain arr n where raw: "raw = Slice arr n" by (cases raw)
  from a have tag: "take 4 (drop i (take n arr)) = KRNG_MAGIC_HEADER"
    by (simp add: raw contents_def)
  from magic_within_length [OF tag] have magic: "take 4 (drop i arr) = KRNG_MAGIC_HEADER"
    and le: "i + 4 \<le> n" by simp_all
  have at: "KRNG_Decode verify krng raw = KRNG_Decode_at verify krng raw i"
    by (simp add: KRNG_Decode_def idx)
  have "contents (Slice (drop i arr) (n - i)) = drop i (take n arr)"
    by (simp add: contents_def drop_take)
  with tag have "take 4 (contents (Slice (drop i arr) (n - i))) = KRNG_MAGIC_HEADER"
    by simp
  from Index_at_start [OF this]
  have "KRNG_Decode verify krng (Slice (drop i arr) (n - i)) =
        KRNG_Decode_at verify krng (Slice (drop i arr) (n - i)) 0"
    by (simp add: KRNG_Decode_def)
  also have "\<dots> = KRNG_Decode_at verify krng (Slice arr n) i"
    by (rule KRNG_Decode_at_shift)
  finally show "KRNG_Decode verify krng raw =
        KRNG_Decode verify krng (Slice (drop i (upto_cap raw)) (slen raw - i))"
    using at by (simp add: raw)
  show "KRNG_Decode verify krng raw = Inr k \<longleftrightarrow>
         i + 10 \<le> length (upto_cap raw) \<and>
         8 \<le> unat (get32 (drop (i + 4) (upto_cap raw))) \<and>
         i + unat (get32 (drop (i + 4) (upto_cap raw))) \<le> length (upto_cap raw) \<and>
         (\<exists>totalRead t.
            readFirstChars
              (Slice (drop (i + 8) (upto_cap raw))
                 (unat (get32 (drop (i + 4) (upto_cap raw))) - 8))
              (unat (get16 (drop (i + 8) (upto_cap raw)))) 2 2 Map.empty
              = Inr (totalRead, t) \<and>
            totalRead \<le> unat (get32 (drop (i + 4) (upto_cap raw))) - 8 \<and>
            verify (take (unat (get32 (drop (i + 4) (upto_cap raw))) - 8 - totalRead)
                      (drop (i + 8 + totalRead) (upto_cap raw))) \<and>
            k = krng \<lparr> KRNG_MagicHeader := KRNG_MAGIC_HEADER,
                        KRNG_SectionSize := get32 (drop (i + 4) (upto_cap raw)),
                        KerningTable := t \<rparr>)"
    unfolding at KRNG_Decode_at_eq_Inr using magic by (simp add: raw)
qed


theorem C10_kerning_section_found_by_scan_witness:
  "KRNG_Decode (\<lambda>_. True) emptyKRNG (whole [0x46, 0x46, 0x4E, 0x54, 0xFE, 0xFF]) = Inr emptyKRNG \<and>
   Index strayMagicBuffer KRNG_MAGIC_HEADER = Some 9 \<and>
   KRNG_Decode (\<lambda>_. True) emptyKRNG (whole strayMagicBuffer) =
     KRNG_Decode (\<lambda>_. True) emptyKRNG (whole (drop 9 strayMagicBuffer)) \<and>
   KRNG_Decode (\<lambda>_. True) emptyKRNG (whole strayMagicBuffer) =
     Inr \<lparr> KRNG_MagicHeader = KRNG_MAGIC_HEADER, KRNG_SectionSize = 11,
           KerningTable = Map.empty \<rparr>"
proof -
  define k where "k = \<lparr> KRNG_MagicHeader = KRNG_MAGIC_HEADER, KRNG_SectionSize = 11,
                          KerningTable = Map.empty \<rparr>"
  have none: "Index [0x46, 0x46, 0x4E, 0x54, 0xFE, 0xFF] KRNG_MAGIC_HEADER = None"
    by (simp add: KRNG_MAGIC_HEADER_def)
  have some: "Index strayMagicBuffer KRNG_MAGIC_HEADER = Some 9"
    by (simp add: strayMagicBuffer_def KRNG_MAGIC_HEADER_def)
  have len: "length KRNG_MAGIC_HEADER = 4" by (simp add: KRNG_MAGIC_HEADER_def)
  have c1: "contents (whole strayMagicBuffer) = strayMagicBuffer"
    and c2: "contents (whole [0x46, 0x46, 0x4E, 0x54, 0xFE, 0xFF :: byte])
               = [0x46, 0x46, 0x4E, 0x54, 0xFE, 0xFF]"
    by (simp_all add: contents_def whole_def)
  from some have first: "take 4 (drop 9 (contents (whole strayMagicBuffer))) = KRNG_MAGIC_HEADER \<and>
      (\<forall>j < 9. take 4 (drop j (contents (whole strayMagicBuffer))) \<noteq> KRNG_MAGIC_HEADER)"
    unfolding Index_Some_iff len c1 by blast
  have absent: "\<forall>j. take 4 (drop j (contents (whole [0x46, 0x46, 0x4E, 0x54, 0xFE, 0xFF])))
                  \<noteq> KRNG_MAGIC_HEADER"
    unfolding c2 by (rule Index_None_no_magic [OF none])
  have sz: "get32 (drop 13 strayMagicBuffer) = 11"
    by (simp add: strayMagicBuffer_def get32_def get16_def)
  have cnt: "get16 (drop 17 strayMagicBuffer) = 0"
    by (simp add: strayMagicBuffer_def get16_def)
  have l: "length strayMagicBuffer = 40" by (simp add: strayMagicBuffer_def)
  have rhs: "9 + 10 \<le> length (upto_cap (whole strayMagicBuffer)) \<and>
         8 \<le> unat (get32 (drop (9 + 4) (upto_cap (whole strayMagicBuffer)))) \<and>
         9 + unat (get32 (drop (9 + 4) (upto_cap (whole strayMagicBuffer))))
           \<le> length (upto_cap (whole strayMagicBuffer)) \<and>
         (\<exists>totalRead t.
            readFirstChars
              (Slice (drop (9 + 8) (upto_cap (whole strayMagicBuffer)))
                 (unat (get32 (drop (9 + 4) (upto_cap (whole strayMagicBuffer)))) - 8))
              (unat (get16 (drop (9 + 8) (upto_cap (whole strayMagicBuffer))))) 2 2 Map.empty
              = Inr (totalRead, t) \<and>
            totalRead \<le> unat (get32 (drop (9 + 4) (upto_cap (whole strayMagicBuffer)))) - 8 \<and>
            (\<lambda>_. True) (take (unat (get32 (drop (9 + 4) (upto_cap (whole strayMagicBuffer)))) - 8
                              - totalRead)
                      (drop (9 + 8 + totalRead) (upto_cap (whole strayMagicBuffer)))) \<and>
            k = emptyKRNG \<lparr> KRNG_MagicHeader := KRNG_MAGIC_HEADER,
                        KRNG_SectionSize := get32 (drop (9 + 4) (upto_cap (whole strayMagicBuffer))),
                        KerningTable := t \<rparr>)"
    by (simp add: whole_def sz cnt l k_def emptyKRNG_def)
  from C10_kerning_section_found_by_scan
         [where raw = "whole [0x46, 0x46, 0x4E, 0x54, 0xFE, 0xFF]" and verify = "\<lambda>_. True"
            and krng = emptyKRNG] absent
  have 1: "KRNG_Decode (\<lambda>_. True) emptyKRNG (whole [0x46, 0x46, 0x4E, 0x54, 0xFE, 0xFF])
             = Inr emptyKRNG"
    by blast
  from C10_kerning_section_found_by_scan
         [where raw = "whole strayMagicBuffer" and verify = "\<lambda>_. True" and krng = emptyKRNG
            and i = 9 and k = k] first
  have 2: "KRNG_Decode (\<lambda>_. True) emptyKRNG (whole strayMagicBuffer) =
        KRNG_Decode (\<lambda>_. True) emptyKRNG
          (Slice (drop 9 (upto_cap (whole strayMagicBuffer))) (slen (whole strayMagicBuffer) - 9))"
    and 3: "KRNG_Decode (\<lambda>_. True) emptyKRNG (whole strayMagicBuffer) = Inr k \<longleftrightarrow>
         9 + 10 \<le> length (upto_cap (whole strayMagicBuffer)) \<and>
         8 \<le> unat (get32 (drop (9 + 4) (upto_cap (whole strayMagicBuffer)))) \<and>
         9 + unat (get32 (drop (9 + 4) (upto_cap (whole strayMagicBuffer))))
           \<le> length (upto_cap (whole strayMagicBuffer)) \<and>
         (\<exists>totalRead t.
            readFirstChars
              (Slice (drop (9 + 8) (upto_cap (whole strayMagicBuffer)))
                 (unat (get32 (drop (9 + 4) (upto_cap (whole strayMagicBuffer)))) - 8))
              (unat (get16 (drop (9 + 8) (upto_cap (whole strayMagicBuffer))))) 2 2 Map.empty
              = Inr (totalRead, t) \<and>
            totalRead \<le> unat (get32 (drop (9 + 4) (upto_cap (whole strayMagicBuffer)))) - 8 \<and>
            (\<lambda>_. True) (take (unat (get32 (drop (9 + 4) (upto_cap (whole strayMagicBuffer)))) - 8
                              - totalRead)
                      (drop (9 + 8 + totalRead) (upto_cap (whole strayMagicBuffer)))) \<and>
            k = emptyKRNG \<lparr> KRNG_MagicHeader := KRNG_MAGIC_HEADER,
                        KRNG_SectionSize := get32 (drop (9 + 4) (upto_cap (whole strayMagicBuffer))),
                        KerningTable := t \<rparr>)"
    by blast+
  from 3 rhs have 4: "KRNG_Decode (\<lambda>_. True) emptyKRNG (whole strayMagicBuffer) = Inr k"
    by (rule iffD2)
  from 2 have 5: "KRNG_Decode (\<lambda>_. True) emptyKRNG (whole strayMagicBuffer) =
     KRNG_Decode (\<lambda>_. True) emptyKRNG (whole (drop 9 strayMagicBuffer))"
    by (simp add: whole_def)
  from 1 some 5 4 show ?thesis unfolding k_def by blast
qed

section \<open>Kerning table encode\<close>

lemma length_writePair [simp]: "length (writePair p) = 4"
  by (simp add: writePair_def)

lemma length_concat_writePair [simp]: "length (concat (map writePair ps)) = 4 * length ps"
  by (induction ps) simp_all

lemma length_writePairArray [simp]:
  "length (writePairArray t fc) = 2 + 4 * length (pairsOf t fc)"
  by (simp add: writePairArray_def)

lemma length_writeFirstChars [simp]: "length (writeFirstChars t fcs off) = 4 * length fcs"
  by (induction fcs arbitrary: off) simp_all

lemma drop_writeFirstChars:
  "i < length fcs \<Longrightarrow>
   drop (4 * i) (writeFirstChars t fcs off) =
     put16 (fcs ! i)
     @ put16 (word_of_nat
         ((off + sum_list (map (\<lambda>fc. 2 + 4 * length (pairsOf t fc)) (take i fcs))) div 2))
     @ writeFirstChars t (drop (Suc i) fcs)
         (off + sum_list (map (\<lambda>fc. 2 + 4 * length (pairsOf t fc)) (take (Suc i) fcs)))"
proof (induction fcs arbitrary: i off)
  case Nil
  then show ?case by simp
next
  case (Cons fc fcs)
  show ?case
  proof (cases i)
    case 0
    then show ?thesis by simp
  next
    case (Suc k)
    with Cons.prems have k: "k < length fcs" by simp
    have "drop (4 * i) (writeFirstChars t (fc # fcs) off) =
          drop (4 * k) (writeFirstChars t fcs (off + 2 + 4 * length (pairsOf t fc)))"
      using Suc by simp
    also note Cons.IH [OF k]
    finally show ?thesis using Suc by (simp add: add.assoc)
  qed
qed

lemma drop_concat_map:
  "i < length xs \<Longrightarrow>
   drop (sum_list (map (\<lambda>x. length (f x)) (take i xs))) (concat (map f xs)) =
     f (xs ! i) @ concat (map f (drop (Suc i) xs))"
proof (induction xs arbitrary: i)
  case Nil
  then show ?case by simp
next
  case (Cons x xs)
  show ?case
  proof (cases i)
    case 0
    then show ?thesis by simp
  next
    case (Suc k)
    with Cons.prems have k: "k < length xs" by simp
    from Cons.IH [OF k] Suc show ?thesis by simp
  qed
qed

lemma finite_dom_table: "finite (dom (t :: uint16 \<rightharpoonup> kerningPair list))"
  by (rule finite)

lemma unat_getFirstCharsOrdered:
  "map unat (getFirstCharsOrdered t) = sorted_list_of_set (unat ` dom t)"
proof -
  have key: "unat (word_of_nat n :: uint16) = n" if "n \<in> unat ` dom t" for n
    using that by auto
  have "map (\<lambda>n. unat (word_of_nat n :: uint16)) (sorted_list_of_set (unat ` dom t))
          = sorted_list_of_set (unat ` dom t)"
  proof (rule map_idI)
    fix n assume "n \<in> set (sorted_list_of_set (unat ` dom t))"
    then have "n \<in> unat ` dom t" using finite_dom_table [of t] by simp
    then show "unat (word_of_nat n :: uint16) = n" by (rule key)
  qed
  then show ?thesis
    by (simp add: getFirstCharsOrdered_def comp_def)
qed

lemma getFirstCharsOrdered_sorted: "sorted (map unat (getFirstCharsOrdered t))"
  by (simp add: unat_getFirstCharsOrdered)

lemma getFirstCharsOrdered_distinct: "distinct (getFirstCharsOrdered t)"
proof -
  have "distinct (map unat (getFirstCharsOrdered t))"
    by (simp add: unat_getFirstCharsOrdered)
  then show ?thesis by (simp add: distinct_map)
qed

lemma getFirstCharsOrdered_set: "set (getFirstCharsOrdered t) = dom t"
proof -
  have "set (getFirstCharsOrdered t) = word_of_nat ` unat ` dom t"
    using finite_dom_table [of t] by (simp add: getFirstCharsOrdered_def)
  also have "\<dots> = dom t" by (simp add: image_image)
  finally show ?thesis .
qed

lemma even_pairArrayOffset: "even (pairArrayOffset t fcs i)"
proof -
  have "even (sum_list (map (\<lambda>fc. 2 + 4 * length (pairsOf t fc)) xs))" for xs
    by (induction xs) simp_all
  then show ?thesis by (simp add: pairArrayOffset_def)
qed


lemma sectionData_KRNG_Encode:
  assumes "dom (KerningTable krng) \<noteq> {}"
  shows "sectionData (fst (KRNG_Encode krng startOffset)) =
           padToNext4ByteBoundary (krngDataBuf (KerningTable krng)) (unat startOffset)"
  using assms
  by (simp add: KRNG_Encode_def Let_def sectionData_def KRNG_HEADER_SIZE_def
      KRNG_MAGIC_HEADER_def)

lemma drop_entry_krngDataBuf:
  assumes "i < length (getFirstCharsOrdered t)"
  shows "\<exists>rest. drop (2 + 4 * i) (padToNext4ByteBoundary (krngDataBuf t) startOffset) =
           put16 (getFirstCharsOrdered t ! i)
           @ put16 (word_of_nat (pairArrayOffset t (getFirstCharsOrdered t) i div 2)) @ rest"
proof -
  define fcs where "fcs = getFirstCharsOrdered t"
  define W where "W = writeFirstChars t fcs (length fcs * 4 + 2)"
  define tail where "tail = concat (map (writePairArray t) fcs)
      @ replicate ((4 - (startOffset + length (krngDataBuf t)) mod 4) mod 4) (0 :: byte)"
  have i: "i < length fcs" using assms by (simp add: fcs_def)
  have buf: "padToNext4ByteBoundary (krngDataBuf t) startOffset =
               put16 (word_of_nat (length fcs)) @ W @ tail"
    by (simp add: padToNext4ByteBoundary_def krngDataBuf_def Let_def fcs_def W_def tail_def)
  have lenW: "4 * i \<le> length W" using i by (simp add: W_def)
  have "drop (2 + 4 * i) (padToNext4ByteBoundary (krngDataBuf t) startOffset) =
          drop (4 * i) W @ tail"
    unfolding buf using lenW by simp
  also have "drop (4 * i) W =
     put16 (fcs ! i)
     @ put16 (word_of_nat
         ((length fcs * 4 + 2
           + sum_list (map (\<lambda>fc. 2 + 4 * length (pairsOf t fc)) (take i fcs))) div 2))
     @ writeFirstChars t (drop (Suc i) fcs)
         (length fcs * 4 + 2
          + sum_list (map (\<lambda>fc. 2 + 4 * length (pairsOf t fc)) (take (Suc i) fcs)))"
    unfolding W_def by (rule drop_writeFirstChars [OF i])
  also have "length fcs * 4 + 2
           + sum_list (map (\<lambda>fc. 2 + 4 * length (pairsOf t fc)) (take i fcs))
        = pairArrayOffset t fcs i"
    by (simp add: pairArrayOffset_def)
  finally show ?thesis by (simp add: fcs_def)
qed

lemma drop_pairArray_krngDataBuf:
  assumes "i < length (getFirstCharsOrdered t)"
  shows "\<exists>rest. drop (pairArrayOffset t (getFirstCharsOrdered t) i)
                  (padToNext4ByteBoundary (krngDataBuf t) startOffset) =
           writePairArray t (getFirstCharsOrdered t ! i) @ rest"
proof -
  define fcs where "fcs = getFirstCharsOrdered t"
  define front where "front = put16 (word_of_nat (length fcs))
                               @ writeFirstChars t fcs (length fcs * 4 + 2)"
  define P where "P = concat (map (writePairArray t) fcs)"
  define pad where
    "pad = replicate ((4 - (startOffset + length (krngDataBuf t)) mod 4) mod 4) (0 :: byte)"
  define k where "k = sum_list (map (\<lambda>fc. 2 + 4 * length (pairsOf t fc)) (take i fcs))"
  have i: "i < length fcs" using assms by (simp add: fcs_def)
  have buf: "padToNext4ByteBoundary (krngDataBuf t) startOffset = front @ P @ pad"
    by (simp add: padToNext4ByteBoundary_def krngDataBuf_def Let_def fcs_def front_def P_def
        pad_def)
  have lenfront: "length front = 2 + 4 * length fcs" by (simp add: front_def)
  have off: "pairArrayOffset t fcs i = length front + k"
    by (simp add: pairArrayOffset_def lenfront k_def)
  have dropP: "drop k P = writePairArray t (fcs ! i)
                 @ concat (map (writePairArray t) (drop (Suc i) fcs))"
    using drop_concat_map [OF i, of "writePairArray t"] by (simp add: k_def P_def)
  have "k \<le> length P"
  proof (rule ccontr)
    assume "\<not> k \<le> length P"
    then have "drop k P = []" by simp
    with dropP have "length (writePairArray t (fcs ! i)) = 0" by simp
    then show False by simp
  qed
  then have "drop (pairArrayOffset t fcs i) (front @ P @ pad) = drop k P @ pad"
    by (simp add: off)
  then show ?thesis unfolding buf fcs_def [symmetric] dropP by simp
qed

lemma entry_fields_KRNG_Encode:
  assumes "dom (KerningTable krng) \<noteq> {}"
    and "i < length (getFirstCharsOrdered (KerningTable krng))"
  shows "entryFirstChar (sectionData (fst (KRNG_Encode krng startOffset))) i =
           getFirstCharsOrdered (KerningTable krng) ! i"
    and "entryStoredOffset (sectionData (fst (KRNG_Encode krng startOffset))) i =
           word_of_nat (pairArrayOffset (KerningTable krng)
                          (getFirstCharsOrdered (KerningTable krng)) i div 2)"
proof -
  define t where "t = KerningTable krng"
  define fcs where "fcs = getFirstCharsOrdered t"
  define sd where "sd = sectionData (fst (KRNG_Encode krng startOffset))"
  have sd: "sd = padToNext4ByteBoundary (krngDataBuf t) (unat startOffset)"
    unfolding sd_def t_def by (rule sectionData_KRNG_Encode [OF assms(1)])
  have i: "i < length (getFirstCharsOrdered t)" using assms(2) by (simp add: t_def)
  from drop_entry_krngDataBuf [OF i, of "unat startOffset"] obtain rest where
    ent: "drop (2 + 4 * i) sd =
            put16 (fcs ! i) @ put16 (word_of_nat (pairArrayOffset t fcs i div 2)) @ rest"
    unfolding sd fcs_def by blast
  have first: "entryFirstChar sd i = fcs ! i"
    unfolding entryFirstChar_def ent by (rule get16_put16)
  have "drop (2 + 4 * i + 2) sd = drop 2 (drop (2 + 4 * i) sd)"
    by (simp add: add.commute)
  then have stored: "entryStoredOffset sd i = word_of_nat (pairArrayOffset t fcs i div 2)"
    unfolding entryStoredOffset_def ent by (simp add: get16_put16)
  from first show "entryFirstChar (sectionData (fst (KRNG_Encode krng startOffset))) i =
           getFirstCharsOrdered (KerningTable krng) ! i"
    unfolding t_def fcs_def sd_def .
  from stored show "entryStoredOffset (sectionData (fst (KRNG_Encode krng startOffset))) i =
           word_of_nat (pairArrayOffset (KerningTable krng)
                          (getFirstCharsOrdered (KerningTable krng)) i div 2)"
    unfolding t_def fcs_def sd_def .
qed

lemma pair_array_KRNG_Encode:
  assumes "dom (KerningTable krng) \<noteq> {}"
    and "i < length (getFirstCharsOrdered (KerningTable krng))"
  shows "take (2 + 4 * length (pairsOf (KerningTable krng)
                                 (getFirstCharsOrdered (KerningTable krng) ! i)))
           (drop (pairArrayOffset (KerningTable krng)
                    (getFirstCharsOrdered (KerningTable krng)) i)
              (sectionData (fst (KRNG_Encode krng startOffset)))) =
           writePairArray (KerningTable krng) (getFirstCharsOrdered (KerningTable krng) ! i)"
proof -
  from drop_pairArray_krngDataBuf [OF assms(2), of "unat startOffset"] obtain rest where
    "drop (pairArrayOffset (KerningTable krng) (getFirstCharsOrdered (KerningTable krng)) i)
       (sectionData (fst (KRNG_Encode krng startOffset))) =
     writePairArray (KerningTable krng) (getFirstCharsOrdered (KerningTable krng) ! i) @ rest"
    unfolding sectionData_KRNG_Encode [OF assms(1)] by blast
  then show ?thesis by simp
qed

lemma length_longPairs: "length longPairs = 32767"
  by (simp add: longPairs_def)

lemma firstChars_bigKRNG: "getFirstCharsOrdered (KerningTable bigKRNG) = [0x41, 0x42]"
  by (simp add: getFirstCharsOrdered_def bigKRNG_def)

lemma firstChars_smallKRNG: "getFirstCharsOrdered (KerningTable smallKRNG) = [0x41, 0x4C]"
  by (simp add: getFirstCharsOrdered_def smallKRNG_def)

lemma pairArrayOffset_bigKRNG:
  "pairArrayOffset (KerningTable bigKRNG) [0x41, 0x42] (Suc 0) = 131080"
  by (simp add: pairArrayOffset_def bigKRNG_def pairsOf_def length_longPairs)

lemma pairArrayOffset_smallKRNG:
  "pairArrayOffset (KerningTable smallKRNG) [0x41, 0x4C] (Suc 0) = 20"
  by (simp add: pairArrayOffset_def smallKRNG_def pairsOf_def)

text \<open>
  C4, as amended.  For every non-empty kerning table the encoder writes the first
  characters in ascending numeric order, each once.  Entry \<open>i\<close> holds its first
  character and, as its stored offset, half the byte offset of its pair array within the
  section data, cut to 16 bits; the byte offset is the one accumulated in the order of
  the entries from \<open>2 + 4 * n\<close> on by \<open>2 + 4 * pairCount\<close> per entry before it, it is
  even, and the pair array (count, then pairs) stands at that offset.  The stored offset
  is exactly the half where the byte offset is below 131072.
\<close>

theorem C4_kerning_encode_offsets:
  assumes "dom (KerningTable krng) \<noteq> {}"
    and "i < length (getFirstCharsOrdered (KerningTable krng))"
  shows "sorted (map unat (getFirstCharsOrdered (KerningTable krng))) \<and>
         distinct (getFirstCharsOrdered (KerningTable krng)) \<and>
         set (getFirstCharsOrdered (KerningTable krng)) = dom (KerningTable krng) \<and>
         entryFirstChar (sectionData (fst (KRNG_Encode krng startOffset))) i =
           getFirstCharsOrdered (KerningTable krng) ! i \<and>
         entryStoredOffset (sectionData (fst (KRNG_Encode krng startOffset))) i =
           word_of_nat (pairArrayOffset (KerningTable krng)
                          (getFirstCharsOrdered (KerningTable krng)) i div 2) \<and>
         even (pairArrayOffset (KerningTable krng) (getFirstCharsOrdered (KerningTable krng)) i) \<and>
         take (2 + 4 * length (pairsOf (KerningTable krng)
                                 (getFirstCharsOrdered (KerningTable krng) ! i)))
           (drop (pairArrayOffset (KerningTable krng)
                    (getFirstCharsOrdered (KerningTable krng)) i)
              (sectionData (fst (KRNG_Encode krng startOffset)))) =
           writePairArray (KerningTable krng) (getFirstCharsOrdered (KerningTable krng) ! i) \<and>
         (pairArrayOffset (KerningTable krng) (getFirstCharsOrdered (KerningTable krng)) i
            < 131072 \<longrightarrow>
          unat (entryStoredOffset (sectionData (fst (KRNG_Encode krng startOffset))) i) =
            pairArrayOffset (KerningTable krng)
              (getFirstCharsOrdered (KerningTable krng)) i div 2)"
proof -
  have exact:
    "unat (entryStoredOffset (sectionData (fst (KRNG_Encode krng startOffset))) i) =
       pairArrayOffset (KerningTable krng) (getFirstCharsOrdered (KerningTable krng)) i div 2"
    if "pairArrayOffset (KerningTable krng) (getFirstCharsOrdered (KerningTable krng)) i
          < 131072"
    unfolding entry_fields_KRNG_Encode(2) [OF assms] using that by (simp add: unat_of_nat16)
  show ?thesis
    using entry_fields_KRNG_Encode [OF assms, of startOffset]
      pair_array_KRNG_Encode [OF assms, of startOffset] exact
      getFirstCharsOrdered_sorted [of "KerningTable krng"]
      getFirstCharsOrdered_distinct [of "KerningTable krng"]
      getFirstCharsOrdered_set [of "KerningTable krng"]
      even_pairArrayOffset [of "KerningTable krng" "getFirstCharsOrdered (KerningTable krng)" i]
    by blast
qed

theorem C4_kerning_encode_offsets_witness:
  "entryFirstChar (sectionData (fst (KRNG_Encode smallKRNG 0))) 1 = 0x4C \<and>
   entryStoredOffset (sectionData (fst (KRNG_Encode smallKRNG 0))) 1 = 10 \<and>
   pairArrayOffset (KerningTable smallKRNG) (getFirstCharsOrdered (KerningTable smallKRNG)) 1
     = 20 \<and>
   take 6 (drop 20 (sectionData (fst (KRNG_Encode smallKRNG 0)))) =
     [0x00, 0x01, 0x00, 0x56, 0xFF, 0xFF]"
proof -
  have ne: "dom (KerningTable smallKRNG) \<noteq> {}" by (simp add: smallKRNG_def)
  have i: "1 < length (getFirstCharsOrdered (KerningTable smallKRNG))"
    by (simp add: firstChars_smallKRNG)
  have arr: "writePairArray (KerningTable smallKRNG) 0x4C = [0x00, 0x01, 0x00, 0x56, 0xFF, 0xFF]"
    by (simp add: writePairArray_def smallKRNG_def pairsOf_def writePair_def examplePair_def
        put16_def)
  have cnt: "length (pairsOf (KerningTable smallKRNG) 0x4C) = 1"
    by (simp add: smallKRNG_def pairsOf_def)
  from C4_kerning_encode_offsets [OF ne i, of 0] show ?thesis
    by (simp add: firstChars_smallKRNG pairArrayOffset_smallKRNG arr cnt)
qed

text \<open>
  The claim as it is stated fails on a table whose pair arrays lie past byte 131071: the
  second pair array of \<open>bigKRNG\<close> is at byte 131080, half of which is 65540, and the
  offset that the encoder stores is 4.
\<close>

theorem C4_stored_offset_counterexample:
  "dom (KerningTable bigKRNG) \<noteq> {} \<and>
   getFirstCharsOrdered (KerningTable bigKRNG) = [0x41, 0x42] \<and>
   pairArrayOffset (KerningTable bigKRNG) (getFirstCharsOrdered (KerningTable bigKRNG)) 1 div 2
     = 65540 \<and>
   unat (entryStoredOffset (sectionData (fst (KRNG_Encode bigKRNG 0))) 1) = 4"
proof -
  have ne: "dom (KerningTable bigKRNG) \<noteq> {}" by (simp add: bigKRNG_def)
  have i: "1 < length (getFirstCharsOrdered (KerningTable bigKRNG))"
    by (simp add: firstChars_bigKRNG)
  from entry_fields_KRNG_Encode(2) [OF ne i, of 0] ne show ?thesis
    by (simp add: firstChars_bigKRNG pairArrayOffset_bigKRNG)
qed

section \<open>Decoding an encoded kerning table\<close>

lemma krngDataBuf_layout: "krngDataBuf t = krngLayout t (getFirstCharsOrdered t)"
  by (simp add: krngDataBuf_def krngLayout_def Let_def)

lemma drop_add: "drop (a + b) xs = drop b (drop a xs)"
  by (simp add: add.commute)

lemma read16_ok:
  assumes "lo + 2 \<le> length (upto_cap s)"
  shows "andThen (reslice s lo (lo + 2)) Uint16 = Inr (get16 (drop lo (upto_cap s)))"
  using assms by (simp add: reslice_def Uint16_def)

lemma readPairs_writePairs:
  assumes "drop pos (upto_cap pd) = concat (map writePair ps) @ rest"
  shows "readPairs pd pos (length ps) = Inr ps"
  using assms
proof (induction ps arbitrary: pos)
  case Nil
  then show ?case by simp
next
  case (Cons p ps)
  have wp: "writePair p = put16 (SecondChar p) @ put16 (KerningValue p)"
    by (simp add: writePair_def)
  have d: "drop pos (upto_cap pd) =
             put16 (SecondChar p) @ put16 (KerningValue p) @ concat (map writePair ps) @ rest"
    using Cons.prems wp by simp
  have len: "pos + 4 \<le> length (upto_cap pd)"
  proof -
    have "length (drop pos (upto_cap pd)) \<ge> 4" unfolding d by simp
    then show ?thesis by simp
  qed
  have sc: "get16 (drop pos (upto_cap pd)) = SecondChar p"
    unfolding d by (rule get16_put16)
  have d2: "drop (pos + 2) (upto_cap pd) =
                   put16 (KerningValue p) @ concat (map writePair ps) @ rest"
    unfolding drop_add d by simp
  have kv: "get16 (drop (pos + 2) (upto_cap pd)) = KerningValue p"
    unfolding d2 by (rule get16_put16)
  have four: "pos + 4 = pos + 2 + 2" by simp
  have d4: "drop (pos + 4) (upto_cap pd) = concat (map writePair ps) @ rest"
    unfolding four drop_add [of "pos + 2" 2] d2 by simp
  have r1: "andThen (reslice pd pos (pos + 2)) Uint16 = Inr (SecondChar p)"
    using read16_ok [of pos pd] len sc by simp
  have r2: "andThen (reslice pd (pos + 2) (pos + 4)) Uint16 = Inr (KerningValue p)"
    unfolding four using read16_ok [of "pos + 2" pd] len kv by simp
  show ?case
    using Cons.IH [OF d4] r1 r2 by simp
qed

lemma readPairArray_writePairArray:
  assumes d: "drop off (upto_cap data) = writePairArray t fc @ rest"
    and ev: "even off"
    and bound: "off + 2 + 4 * length (pairsOf t fc) < 65536"
  shows "readPairArray data (word_of_nat (off div 2)) = Inr (pairsOf t fc)"
proof -
  define ps where "ps = pairsOf t fc"
  define cnt :: uint16 where "cnt = word_of_nat (length ps)"
  have d': "drop off (upto_cap data) = put16 cnt @ concat (map writePair ps) @ rest"
    using d by (simp add: writePairArray_def ps_def cnt_def)
  have b: "off + 2 + 4 * length ps < 65536" using bound by (simp add: ps_def)
  have real: "word_of_nat (off div 2) * 2 = (word_of_nat off :: uint16)"
  proof -
    have "off div 2 * 2 = off" using ev by simp
    then have "(word_of_nat (off div 2 * 2) :: uint16) = word_of_nat off" by simp
    then show ?thesis by (simp only: of_nat_mult of_nat_numeral)
  qed
  have u_real: "unat (word_of_nat off :: uint16) = off"
    using b by (simp add: unat_of_nat16)
  have u_real2: "unat (word_of_nat off + 2 :: uint16) = off + 2"
  proof -
    have "(word_of_nat off + 2 :: uint16) = word_of_nat (off + 2)" by simp
    then show ?thesis using b by (simp only: unat_of_nat16) 
  qed
  have u_cnt: "unat cnt = length ps"
    unfolding cnt_def using b by (simp add: unat_of_nat16)
  have u_end: "unat (word_of_nat off + 2 + cnt * 4 :: uint16) = off + 2 + 4 * length ps"
  proof -
    have "(word_of_nat off + 2 + cnt * 4 :: uint16) = word_of_nat (off + 2 + 4 * length ps)"
      by (simp add: cnt_def)
    then show ?thesis using b by (simp only: unat_of_nat16)
  qed
  have len: "off + 2 + 4 * length ps \<le> length (upto_cap data)"
  proof -
    have "length (drop off (upto_cap data)) \<ge> 2 + 4 * length ps" unfolding d' by simp
    then show ?thesis by simp
  qed
  have c: "get16 (drop off (upto_cap data)) = cnt"
    unfolding d' by (rule get16_put16)
  have r1: "andThen (reslice data off (off + 2)) Uint16 = Inr cnt"
    using read16_ok [of off data] len c by simp
  have d2: "drop (off + 2) (upto_cap data) = concat (map writePair ps) @ rest"
    unfolding drop_add d' by simp
  have r2: "reslice data (off + 2) (off + 2 + 4 * length ps) =
              Inr (Slice (drop (off + 2) (upto_cap data)) (4 * length ps))"
    using len by (simp add: reslice_def)
  have r3: "readPairs (Slice (drop (off + 2) (upto_cap data)) (4 * length ps)) 0 (length ps)
              = Inr ps"
  proof (rule readPairs_writePairs [where rest = rest])
    show "drop 0 (upto_cap (Slice (drop (off + 2) (upto_cap data)) (4 * length ps))) =
            concat (map writePair ps) @ rest"
      using d2 by simp
  qed
  have "readPairArray data (word_of_nat (off div 2)) = Inr ps"
    unfolding readPairArray_def Let_def real u_real u_real2 u_end r1 andThen_Inr u_cnt r2 r3
    by (rule refl)
  then show ?thesis by (simp add: ps_def)
qed

lemma pairArrayOffset_Suc:
  "i < length fcs \<Longrightarrow>
   pairArrayOffset t fcs (Suc i) = pairArrayOffset t fcs i + 2 + 4 * length (pairsOf t (fcs ! i))"
  by (simp add: pairArrayOffset_def take_Suc_conv_app_nth)

lemma pairArrayOffset_mono:
  "i \<le> j \<Longrightarrow> pairArrayOffset t fcs i \<le> pairArrayOffset t fcs j"
proof -
  assume "i \<le> j"
  then have "take j fcs = take i fcs @ take (j - i) (drop i fcs)"
    by (metis le_add_diff_inverse take_add)
  then show ?thesis by (simp add: pairArrayOffset_def)
qed

lemma length_krngLayout: "length (krngLayout t fcs) = pairArrayOffset t fcs (length fcs)"
proof -
  have "length (concat (map (writePairArray t) xs)) =
        sum_list (map (\<lambda>fc. 2 + 4 * length (pairsOf t fc)) xs)" for xs
    by (induction xs) simp_all
  then show ?thesis by (simp add: krngLayout_def pairArrayOffset_def)
qed

lemma drop_entry_krngLayout:
  assumes i: "i < length fcs"
  shows "\<exists>rest. drop (2 + 4 * i) (krngLayout t fcs @ tail) =
           put16 (fcs ! i) @ put16 (word_of_nat (pairArrayOffset t fcs i div 2)) @ rest"
proof -
  define W where "W = writeFirstChars t fcs (length fcs * 4 + 2)"
  define tl' where "tl' = concat (map (writePairArray t) fcs) @ tail"
  have buf: "krngLayout t fcs @ tail = put16 (word_of_nat (length fcs)) @ W @ tl'"
    by (simp add: krngLayout_def W_def tl'_def)
  have lenW: "4 * i \<le> length W" using i by (simp add: W_def)
  have "drop (2 + 4 * i) (krngLayout t fcs @ tail) = drop (4 * i) W @ tl'"
    unfolding buf using lenW by simp
  also have "drop (4 * i) W =
     put16 (fcs ! i)
     @ put16 (word_of_nat
         ((length fcs * 4 + 2
           + sum_list (map (\<lambda>fc. 2 + 4 * length (pairsOf t fc)) (take i fcs))) div 2))
     @ writeFirstChars t (drop (Suc i) fcs)
         (length fcs * 4 + 2
          + sum_list (map (\<lambda>fc. 2 + 4 * length (pairsOf t fc)) (take (Suc i) fcs)))"
    unfolding W_def by (rule drop_writeFirstChars [OF i])
  also have "length fcs * 4 + 2
           + sum_list (map (\<lambda>fc. 2 + 4 * length (pairsOf t fc)) (take i fcs))
        = pairArrayOffset t fcs i"
    by (simp add: pairArrayOffset_def)
  finally show ?thesis by simp
qed

lemma drop_pairArray_krngLayout:
  assumes i: "i < length fcs"
  shows "\<exists>rest. drop (pairArrayOffset t fcs i) (krngLayout t fcs @ tail) =
           writePairArray t (fcs ! i) @ rest"
proof -
  define front where "front = put16 (word_of_nat (length fcs))
                               @ writeFirstChars t fcs (length fcs * 4 + 2)"
  define P where "P = concat (map (writePairArray t) fcs)"
  define k where "k = sum_list (map (\<lambda>fc. 2 + 4 * length (pairsOf t fc)) (take i fcs))"
  have buf: "krngLayout t fcs @ tail = front @ P @ tail"
    by (simp add: krngLayout_def front_def P_def)
  have lenfront: "length front = 2 + 4 * length fcs" by (simp add: front_def)
  have off: "pairArrayOffset t fcs i = length front + k"
    by (simp add: pairArrayOffset_def lenfront k_def)
  have dropP: "drop k P = writePairArray t (fcs ! i)
                 @ concat (map (writePairArray t) (drop (Suc i) fcs))"
    using drop_concat_map [OF i, of "writePairArray t"] by (simp add: k_def P_def)
  have "k \<le> length P"
  proof (rule ccontr)
    assume "\<not> k \<le> length P"
    then have "drop k P = []" by simp
    with dropP have "length (writePairArray t (fcs ! i)) = 0" by simp
    then show False by simp
  qed
  then have "drop (pairArrayOffset t fcs i) (front @ P @ tail) = drop k P @ tail"
    by (simp add: off)
  then show ?thesis unfolding buf dropP by simp
qed

lemma readFirstChars_layout:
  assumes D: "upto_cap data = krngLayout t fcs @ tail"
    and L: "length (krngLayout t fcs) < 65536"
    and k: "k \<le> length fcs"
  shows "readFirstChars data (length fcs - k) (2 + 4 * k) tot m =
           Inr (tot + sum_list (map (\<lambda>fc. 6 + 4 * length (pairsOf t fc)) (drop k fcs)),
                foldl (\<lambda>m fc. m(fc \<mapsto> pairsOf t fc)) m (drop k fcs))"
  using k
proof (induction "length fcs - k" arbitrary: k tot m)
  case 0
  then show ?case by simp
next
  case (Suc j)
  then have klt: "k < length fcs" and j: "j = length fcs - Suc k" by simp_all
  define off where "off = pairArrayOffset t fcs k"
  from drop_entry_krngLayout [OF klt, of t tail] obtain rest where
    ent: "drop (2 + 4 * k) (upto_cap data) =
            put16 (fcs ! k) @ put16 (word_of_nat (off div 2)) @ rest"
    unfolding D off_def by blast
  from drop_pairArray_krngLayout [OF klt, of t tail] obtain rest' where
    arr: "drop off (upto_cap data) = writePairArray t (fcs ! k) @ rest'"
    unfolding D off_def by blast
  have "pairArrayOffset t fcs (Suc k) \<le> pairArrayOffset t fcs (length fcs)"
    using klt by (intro pairArrayOffset_mono) simp
  then have bound: "off + 2 + 4 * length (pairsOf t (fcs ! k)) < 65536"
    using L by (simp add: pairArrayOffset_Suc [OF klt] length_krngLayout off_def)
  have ev: "even off" unfolding off_def by (rule even_pairArrayOffset)
  have len: "2 + 4 * k + 4 \<le> length (upto_cap data)"
  proof -
    have "length (drop (2 + 4 * k) (upto_cap data)) \<ge> 4" unfolding ent by simp
    then show ?thesis by simp
  qed
  have fc: "get16 (drop (2 + 4 * k) (upto_cap data)) = fcs ! k"
    unfolding ent by (rule get16_put16)
  have ent2: "drop (2 + 4 * k + 2) (upto_cap data) = put16 (word_of_nat (off div 2)) @ rest"
    unfolding drop_add [of "2 + 4 * k" 2] ent by simp
  have so: "get16 (drop (2 + 4 * k + 2) (upto_cap data)) = word_of_nat (off div 2)"
    unfolding ent2 by (rule get16_put16)
  have r1: "andThen (reslice data (2 + 4 * k) (2 + 4 * k + 2)) Uint16 = Inr (fcs ! k)"
    using read16_ok [of "2 + 4 * k" data] len fc by simp
  have four: "2 + 4 * k + 4 = 2 + 4 * k + 2 + 2" by simp
  have r2: "andThen (reslice data (2 + 4 * k + 2) (2 + 4 * k + 4)) Uint16 =
              Inr (word_of_nat (off div 2))"
    unfolding four using read16_ok [of "2 + 4 * k + 2" data] len so by simp
  have r3: "readPairArray data (word_of_nat (off div 2)) = Inr (pairsOf t (fcs ! k))"
    by (rule readPairArray_writePairArray [OF arr ev bound])
  have next_pos: "2 + 4 * k + 4 = 2 + 4 * Suc k" by simp
  have dr: "drop k fcs = fcs ! k # drop (Suc k) fcs"
    using klt by (simp add: Cons_nth_drop_Suc)
  have step: "readFirstChars data (Suc j) (2 + 4 * k) tot m =
     readFirstChars data j (2 + 4 * Suc k) (tot + 4 + 2 + 4 * length (pairsOf t (fcs ! k)))
       (m(fcs ! k \<mapsto> pairsOf t (fcs ! k)))"
    unfolding readFirstChars.simps r1 r2 r3 andThen_Inr unfolding next_pos by (rule refl)
  have IH: "readFirstChars data j (2 + 4 * Suc k) tot' m' =
           Inr (tot' + sum_list (map (\<lambda>fc. 6 + 4 * length (pairsOf t fc)) (drop (Suc k) fcs)),
                foldl (\<lambda>m fc. m(fc \<mapsto> pairsOf t fc)) m' (drop (Suc k) fcs))" for tot' m'
    using Suc.hyps(1) [of "Suc k" tot' m'] j klt by simp
  show ?case
    unfolding Suc.hyps(2) [symmetric] step IH dr by simp
qed

lemma foldl_table:
  "foldl (\<lambda>m fc. m(fc \<mapsto> pairsOf t fc)) m fcs =
     (\<lambda>k. if k \<in> set fcs then Some (pairsOf t k) else m k)"
  by (induction fcs arbitrary: m) (auto simp: fun_eq_iff)

lemma table_of_firstChars:
  assumes "set fcs = dom t"
  shows "foldl (\<lambda>m fc. m(fc \<mapsto> pairsOf t fc)) Map.empty fcs = t"
  unfolding foldl_table using assms
  by (auto simp: fun_eq_iff pairsOf_def domIff split: option.splits)

lemma total_read_layout:
  "2 + sum_list (map (\<lambda>fc. 6 + 4 * length (pairsOf t fc)) fcs) = length (krngLayout t fcs)"
proof -
  have "sum_list (map (\<lambda>fc. 6 + 4 * length (pairsOf t fc)) xs) =
        4 * length xs + sum_list (map (\<lambda>fc. 2 + 4 * length (pairsOf t fc)) xs)" for xs
    by (induction xs) simp_all
  then show ?thesis by (simp add: length_krngLayout pairArrayOffset_def)
qed

lemma padded_layout:
  "padToNext4ByteBoundary (krngLayout t fcs) s =
     krngLayout t fcs @ replicate (padLength s (length (krngLayout t fcs))) 0"
  by (simp add: padToNext4ByteBoundary_def padLength_def)

lemma padLength_lt: "padLength s n < 4"
  by (simp add: padLength_def)

lemma KRNG_Encode_section:
  assumes "dom (KerningTable krng) \<noteq> {}"
  shows "fst (KRNG_Encode krng startOffset) =
           krngSection (KerningTable krng) (getFirstCharsOrdered (KerningTable krng))
             (unat startOffset)"
  using assms by (simp add: KRNG_Encode_def krngSection_def krngDataBuf_layout Let_def)

lemma KRNG_Decode_at_section:
  assumes dom: "set fcs = dom t"
    and L: "length (krngLayout t fcs) < 65536"
    and ver: "verify (replicate (padLength s (length (krngLayout t fcs))) 0)"
  shows "KRNG_Decode_at verify krng (Slice (pre @ krngSection t fcs s @ post) n) (length pre) =
           Inr (krng \<lparr> KRNG_MagicHeader := KRNG_MAGIC_HEADER,
                        KRNG_SectionSize :=
                          word_of_nat (KRNG_HEADER_SIZE
                            + length (padToNext4ByteBoundary (krngLayout t fcs) s)),
                        KerningTable := t \<rparr>)"
proof -
  define lay where "lay = krngLayout t fcs"
  define pad :: "byte list" where "pad = replicate (padLength s (length lay)) 0"
  define sz :: uint32 where "sz = word_of_nat (KRNG_HEADER_SIZE + length (lay @ pad))"
  define buf where "buf = pre @ krngSection t fcs s @ post"
  define hs where "hs = length pre"
  have padded: "padToNext4ByteBoundary (krngLayout t fcs) s = lay @ pad"
    by (simp add: padded_layout lay_def pad_def)
  have buf: "buf = pre @ KRNG_MAGIC_HEADER @ put32 sz @ lay @ pad @ post"
    by (simp add: buf_def krngSection_def Let_def padded sz_def)
  have lenpad: "length pad < 4" by (simp add: pad_def padLength_lt)
  have lenlay: "length lay < 65536" using L by (simp add: lay_def)
  have lenmagic: "length KRNG_MAGIC_HEADER = 4" by (simp add: KRNG_MAGIC_HEADER_def)
  have lenbuf: "length buf = hs + 8 + length lay + length pad + length post"
    by (simp add: buf hs_def lenmagic)
  have "KRNG_HEADER_SIZE + length (lay @ pad) = 8 + length lay + length pad"
    by (simp add: KRNG_HEADER_SIZE_def)
  then have sz': "sz = word_of_nat (8 + length lay + length pad)"
    by (simp only: sz_def)
  have "8 + length lay + length pad < 4294967296" using lenlay lenpad by simp
  from unat_of_nat32 [OF this] have usz: "unat sz = 8 + length lay + length pad"
    unfolding sz' .
  \<comment> \<open>the header\<close>
  have h1: "reslice (Slice buf n) hs (hs + KRNG_HEADER_SIZE) = Inr (Slice (drop hs buf) 8)"
    by (simp add: reslice_def lenbuf KRNG_HEADER_SIZE_def)
  have dh: "drop hs buf = KRNG_MAGIC_HEADER @ put32 sz @ lay @ pad @ post"
    by (simp add: buf hs_def)
  have h2: "assertEqual KRNG_HEADER_SIZE (slen (Slice (drop hs buf) 8)) = Inr ()"
    by (simp add: assertEqual_def KRNG_HEADER_SIZE_def)
  have h3: "reslice (Slice (drop hs buf) 8) 0 4 = Inr (Slice (drop hs buf) 4)"
    by (simp add: reslice_def dh lenmagic)
  have h3c: "contents (Slice (drop hs buf) 4) = KRNG_MAGIC_HEADER"
    by (simp add: contents_def dh lenmagic)
  have h4: "andThen (reslice (Slice (drop hs buf) 8) 4 8) Uint32 = Inr sz"
    by (simp add: reslice_def Uint32_def dh lenmagic get32_put32)
  \<comment> \<open>the data\<close>
  have d1: "reslice (Slice buf n) (hs + KRNG_HEADER_SIZE) (hs + unat sz) =
              Inr (Slice (lay @ pad @ post) (length lay + length pad))"
    by (simp add: reslice_def lenbuf usz KRNG_HEADER_SIZE_def buf hs_def lenmagic)
  define data where "data = Slice (lay @ pad @ post) (length lay + length pad)"
  have cap: "upto_cap data = krngLayout t fcs @ pad @ post" by (simp add: data_def lay_def)
  have lay2: "lay = put16 (word_of_nat (length fcs))
                @ writeFirstChars t fcs (length fcs * 4 + 2)
                @ concat (map (writePairArray t) fcs)"
    by (simp add: lay_def krngLayout_def)
  have nfcs: "length fcs < 65536"
  proof -
    have "length lay \<ge> 2 + 4 * length fcs" unfolding lay2 by simp
    with lenlay show ?thesis by simp
  qed
  have d2: "andThen (reslice data 0 2) Uint16 = Inr (word_of_nat (length fcs))"
  proof -
    have "2 \<le> length (upto_cap data)" unfolding data_def lay2 by simp
    moreover have "get16 (upto_cap data) = word_of_nat (length fcs)"
      unfolding data_def lay2 by (simp add: get16_put16)
    ultimately show ?thesis using read16_ok [of 0 data] by (simp add: numeral_2_eq_2)
  qed
  have ucount: "unat (word_of_nat (length fcs) :: uint16) = length fcs"
    using nfcs by (simp add: unat_of_nat16)
  have d3: "readFirstChars data (length fcs) 2 2 Map.empty = Inr (length lay, t)"
    using readFirstChars_layout [OF cap L, of 0 2 Map.empty] total_read_layout [of t fcs]
    by (simp add: table_of_firstChars [OF dom] lay_def)
  have d4: "reslice_from data (length lay) = Inr (Slice (pad @ post) (length pad))"
    by (simp add: reslice_from_def data_def)
  have d5: "contents (Slice (pad @ post) (length pad)) = pad" by (simp add: contents_def)
  have ver': "verify pad" using ver by (simp add: pad_def lay_def)
  have "KRNG_Decode_at verify krng (Slice buf n) hs =
          Inr (krng \<lparr> KRNG_MagicHeader := KRNG_MAGIC_HEADER, KRNG_SectionSize := sz,
                       KerningTable := t \<rparr>)"
    unfolding KRNG_Decode_at_def Let_def h1 andThen_Inr h2 h3 h4 h3c d1
    unfolding data_def [symmetric] d2 andThen_Inr ucount d3
    using ver' by (simp add: d4 d5)
  then show ?thesis by (simp add: buf_def hs_def sz_def padded)
qed

section \<open>Document encode\<close>

lemma FFNT_Encode_eq_Inr:
  "FFNT_Encode ffnt totalFileSize = Inr raw \<longleftrightarrow>
     length (MagicHeader ffnt) = 4 \<and>
     raw = MagicHeader ffnt @ put16 (Endianness ffnt) @ put16 (SectionSize ffnt)
           @ put32 (Version ffnt) @ put32 totalFileSize @ put32 (BlockReadNum ffnt)"
  by (auto simp: FFNT_Encode_def Let_def assertEqual_def FFNT_HEADER_SIZE_def)

lemma FFNT_Encode_size_field:
  assumes "FFNT_Encode ffnt totalFileSize = Inr raw"
  shows "length raw = 20" and "take 4 (drop 12 (raw @ rest)) = put32 totalFileSize"
  using assms by (auto simp: FFNT_Encode_eq_Inr)

lemma BFFNT_Encode_parts_eq_Inr:
  "BFFNT_Encode_parts S b = Inr p \<longleftrightarrow>
     (\<exists>tglp cwdhs cmaps finf ffnt.
        TGLP_Encode S (TGLP b) = Inr tglp \<and>
        EncodeCWDHs S (CWDHs b) (FFNT_HEADER_SIZE + FINF_HEADER_SIZE S + 8 + length tglp) = Inr cwdhs \<and>
        EncodeCMAPs S (CMAPs b)
          (FFNT_HEADER_SIZE + FINF_HEADER_SIZE S + 8 + length tglp + length cwdhs) = Inr cmaps \<and>
        FINF_Encode S (FINF b) (FFNT_HEADER_SIZE + FINF_HEADER_SIZE S + 8)
          (FFNT_HEADER_SIZE + FINF_HEADER_SIZE S + 8 + length tglp)
          (FFNT_HEADER_SIZE + FINF_HEADER_SIZE S + 8 + length tglp + length cwdhs) = Inr finf \<and>
        FFNT_Encode (FFNT b)
          (word_of_nat (FFNT_HEADER_SIZE + length finf + length tglp + length cwdhs + length cmaps
             + length (fst (KRNG_Encode (KRNG b)
                 (word_of_nat (FFNT_HEADER_SIZE + FINF_HEADER_SIZE S + 8 + length tglp
                    + length cwdhs + length cmaps)))))) = Inr ffnt \<and>
        p = \<lparr> ffntRaw = ffnt, finfRaw = finf, tglpRaw = tglp, cwdhsRaw = cwdhs, cmapsRaw = cmaps,
              krngRaw = fst (KRNG_Encode (KRNG b)
                 (word_of_nat (FFNT_HEADER_SIZE + FINF_HEADER_SIZE S + 8 + length tglp
                    + length cwdhs + length cmaps))),
              tglpOffset = FFNT_HEADER_SIZE + FINF_HEADER_SIZE S + 8,
              cwdhOffset = FFNT_HEADER_SIZE + FINF_HEADER_SIZE S + 8 + length tglp,
              cmapOffset = FFNT_HEADER_SIZE + FINF_HEADER_SIZE S + 8 + length tglp + length cwdhs,
              krngOffset = FFNT_HEADER_SIZE + FINF_HEADER_SIZE S + 8 + length tglp + length cwdhs
                 + length cmaps \<rparr>)"
  unfolding BFFNT_Encode_parts_def Let_def andThen_eq_Inr by blast


lemma BFFNT_Encode_parts_lengths:
  assumes "BFFNT_Encode_parts S b = Inr p"
  shows "length (ffntRaw p) = 20"
    and "\<exists>fileSize. FFNT_Encode (FFNT b) fileSize = Inr (ffntRaw p) \<and>
           fileSize = word_of_nat (FFNT_HEADER_SIZE + length (finfRaw p) + length (tglpRaw p)
             + length (cwdhsRaw p) + length (cmapsRaw p) + length (krngRaw p))"
    and "tglpOffset p = FFNT_HEADER_SIZE + FINF_HEADER_SIZE S + 8"
    and "cwdhOffset p = tglpOffset p + length (tglpRaw p)"
    and "cmapOffset p = cwdhOffset p + length (cwdhsRaw p)"
    and "FINF_Encode S (FINF b) (tglpOffset p) (cwdhOffset p) (cmapOffset p) = Inr (finfRaw p)"
  using assms unfolding BFFNT_Encode_parts_eq_Inr
  by (auto simp: FFNT_Encode_eq_Inr)

lemma BFFNT_Encode_parts_stale_size:
  "BFFNT_Encode_parts S (b \<lparr> FFNT := (FFNT b) \<lparr> TotalFileSize := stale \<rparr> \<rparr>) =
   BFFNT_Encode_parts S b"
  by (simp add: BFFNT_Encode_parts_def FFNT_Encode_def)

lemma exampleDocument_parts:
  "BFFNT_Encode_parts standInSections exampleDocument = Inr exampleEncoded"
  by (simp add: BFFNT_Encode_parts_def standInSections_def exampleDocument_def Let_def
      FFNT_HEADER_SIZE_def KRNG_Encode_def emptyKRNG_def FFNT_Encode_def assertEqual_def
      put32_def put16_def exampleEncoded_def)

text \<open>
  C2. Whenever the document's encoder returns a buffer, the big-endian \<^verbatim>\<open>uint32\<close> at
  bytes 12..16 of the buffer is the length of the buffer as a \<^verbatim>\<open>uint32\<close> (the length
  itself where it is below \<open>2 ^ 32\<close>), and that length is the 20 bytes of the header
  plus the lengths of the five encoded sections; the total file size stored in the
  document has no part in it: with any other stored value the encoder returns the same
  buffer.
\<close>

theorem C2_total_file_size:
  assumes "BFFNT_Encode S b = Inr out"
  shows "get32 (take 4 (drop 12 out)) = word_of_nat (length out) \<and>
         (length out < 4294967296 \<longrightarrow> unat (get32 (take 4 (drop 12 out))) = length out) \<and>
         (\<exists>p. BFFNT_Encode_parts S b = Inr p \<and>
              length out = FFNT_HEADER_SIZE + length (finfRaw p) + length (tglpRaw p)
                + length (cwdhsRaw p) + length (cmapsRaw p) + length (krngRaw p)) \<and>
         BFFNT_Encode S (b \<lparr> FFNT := (FFNT b) \<lparr> TotalFileSize := stale \<rparr> \<rparr>) = Inr out"
proof -
  from assms(1) obtain p where p: "BFFNT_Encode_parts S b = Inr p" and out: "out = assemble p"
    by (auto simp: BFFNT_Encode_def andThen_eq_Inr)
  from BFFNT_Encode_parts_lengths(2) [OF p] obtain fileSize where
    enc: "FFNT_Encode (FFNT b) fileSize = Inr (ffntRaw p)" and
    fs: "fileSize = word_of_nat (FFNT_HEADER_SIZE + length (finfRaw p) + length (tglpRaw p)
             + length (cwdhsRaw p) + length (cmapsRaw p) + length (krngRaw p))"
    by blast
  have len: "length out = FFNT_HEADER_SIZE + length (finfRaw p) + length (tglpRaw p)
                + length (cwdhsRaw p) + length (cmapsRaw p) + length (krngRaw p)"
    using BFFNT_Encode_parts_lengths(1) [OF p]
    by (simp add: out assemble_def FFNT_HEADER_SIZE_def)
  have "take 4 (drop 12 out) = put32 fileSize"
    unfolding out assemble_def by (rule FFNT_Encode_size_field(2) [OF enc])
  then have "get32 (take 4 (drop 12 out)) = fileSize"
    using get32_put32 [of fileSize "[]"] by simp
  then have field: "get32 (take 4 (drop 12 out)) = word_of_nat (length out)"
    unfolding fs len [symmetric] .
  have exact: "unat (get32 (take 4 (drop 12 out))) = length out"
    if "length out < 4294967296"
    unfolding field using that by (rule unat_of_nat32)
  have "BFFNT_Encode S (b \<lparr> FFNT := (FFNT b) \<lparr> TotalFileSize := stale \<rparr> \<rparr>) = Inr out"
    using assms(1) by (simp add: BFFNT_Encode_def BFFNT_Encode_parts_stale_size)
  with field exact p len show ?thesis by blast
qed

theorem C2_total_file_size_witness:
  "BFFNT_Encode standInSections exampleDocument = Inr (assemble exampleEncoded) \<and>
   length (assemble exampleEncoded) = 88 \<and>
   unat (get32 (take 4 (drop 12 (assemble exampleEncoded)))) = 88 \<and>
   BFFNT_Encode standInSections
     (exampleDocument \<lparr> FFNT := (FFNT exampleDocument) \<lparr> TotalFileSize := 7 \<rparr> \<rparr>) =
     Inr (assemble exampleEncoded)"
proof -
  have enc: "BFFNT_Encode standInSections exampleDocument = Inr (assemble exampleEncoded)"
    by (simp add: BFFNT_Encode_def exampleDocument_parts)
  have len: "length (assemble exampleEncoded) = 88"
    by (simp add: assemble_def exampleEncoded_def)
  from C2_total_file_size [OF enc, of 7] enc len show ?thesis by simp
qed

text \<open>
  C3, as amended.  After the document's encoder has run with a font info of its fixed
  size, each of the three offsets that it hands to the font info's encoder is the byte
  position of the payload of its section in the output, 8 bytes past the section's
  start; decremented by 8 it is the position where the section itself starts (its magic
  tag and size first): the output from there on is the section and what follows it.
\<close>

theorem C3_offsets_point_past_section_headers:
  assumes "BFFNT_Encode_parts S b = Inr p" and "length (finfRaw p) = FINF_HEADER_SIZE S"
  shows "FINF_Encode S (FINF b) (tglpOffset p) (cwdhOffset p) (cmapOffset p) = Inr (finfRaw p) \<and>
         tglpOffset p = payloadStart (tglpSectionStart p) \<and>
         cwdhOffset p = payloadStart (cwdhSectionStart p) \<and>
         cmapOffset p = payloadStart (cmapSectionStart p) \<and>
         drop (tglpOffset p - 8) (assemble p) =
           tglpRaw p @ cwdhsRaw p @ cmapsRaw p @ krngRaw p \<and>
         drop (cwdhOffset p - 8) (assemble p) = cwdhsRaw p @ cmapsRaw p @ krngRaw p \<and>
         drop (cmapOffset p - 8) (assemble p) = cmapsRaw p @ krngRaw p"
proof -
  note L = BFFNT_Encode_parts_lengths [OF assms(1)]
  have t: "tglpOffset p = length (ffntRaw p) + length (finfRaw p) + 8"
    using L(1,3) assms(2) by (simp add: FFNT_HEADER_SIZE_def)
  have c: "cwdhOffset p = length (ffntRaw p) + length (finfRaw p) + length (tglpRaw p) + 8"
    using L(4) t by simp
  have m: "cmapOffset p = length (ffntRaw p) + length (finfRaw p) + length (tglpRaw p)
             + length (cwdhsRaw p) + 8"
    using L(5) c by simp
  show ?thesis
    using L(6) by (simp add: t c m payloadStart_def tglpSectionStart_def cwdhSectionStart_def
        cmapSectionStart_def assemble_def)
qed

theorem C3_offsets_point_past_section_headers_witness:
  "FINF_Encode standInSections (FINF exampleDocument) 60 72 84 = Inr (finfRaw exampleEncoded) \<and>
   payloadStart (tglpSectionStart exampleEncoded) = 60 \<and>
   payloadStart (cwdhSectionStart exampleEncoded) = 72 \<and>
   payloadStart (cmapSectionStart exampleEncoded) = 84 \<and>
   take 4 (drop (60 - 8) (assemble exampleEncoded)) = [0x54, 0x47, 0x4C, 0x50] \<and>
   take 4 (drop (72 - 8) (assemble exampleEncoded)) = [0x43, 0x57, 0x44, 0x48] \<and>
   take 4 (drop (84 - 8) (assemble exampleEncoded)) = [0x43, 0x4D, 0x41, 0x50]"
proof -
  have len: "length (finfRaw exampleEncoded) = FINF_HEADER_SIZE standInSections"
    by (simp add: exampleEncoded_def standInSections_def)
  have offs: "tglpOffset exampleEncoded = 60" "cwdhOffset exampleEncoded = 72"
    "cmapOffset exampleEncoded = 84"
    by (simp_all add: exampleEncoded_def)
  have raws: "take 4 (tglpRaw exampleEncoded) = [0x54, 0x47, 0x4C, 0x50]"
    "take 4 (cwdhsRaw exampleEncoded) = [0x43, 0x57, 0x44, 0x48]"
    "take 4 (cmapsRaw exampleEncoded) = [0x43, 0x4D, 0x41, 0x50]"
    "4 \<le> length (tglpRaw exampleEncoded)" "4 \<le> length (cwdhsRaw exampleEncoded)"
    "4 \<le> length (cmapsRaw exampleEncoded)"
    by (simp_all add: exampleEncoded_def)
  from C3_offsets_point_past_section_headers [OF exampleDocument_parts len]
  show ?thesis
    unfolding offs using raws by simp
qed

text \<open>
  The claim as it is stated fails on every document that encodes: decremented by 8, an
  offset is the start of its section, which is 8 bytes before the payload.  In the
  example the texture page starts at byte 52, its payload at byte 60, and the offset is
  60.
\<close>

theorem C3_offset_minus_8_counterexample:
  "BFFNT_Encode_parts standInSections exampleDocument = Inr exampleEncoded \<and>
   length (finfRaw exampleEncoded) = FINF_HEADER_SIZE standInSections \<and>
   tglpOffset exampleEncoded - 8 = 52 \<and>
   tglpSectionStart exampleEncoded = 52 \<and>
   payloadStart (tglpSectionStart exampleEncoded) = 60 \<and>
   tglpOffset exampleEncoded - 8 \<noteq> payloadStart (tglpSectionStart exampleEncoded) \<and>
   cwdhOffset exampleEncoded - 8 \<noteq> payloadStart (cwdhSectionStart exampleEncoded) \<and>
   cmapOffset exampleEncoded - 8 \<noteq> payloadStart (cmapSectionStart exampleEncoded)"
  using exampleDocument_parts
  by (simp add: exampleEncoded_def standInSections_def payloadStart_def tglpSectionStart_def
      cwdhSectionStart_def cmapSectionStart_def)

section \<open>Decode, then encode\<close>

lemma get16_append: "2 \<le> length xs \<Longrightarrow> get16 (xs @ ys) = get16 xs"
proof -
  assume "2 \<le> length xs"
  then obtain a b r where "xs = a # b # r"
    by (cases xs; cases "tl xs") auto
  then show ?thesis by (simp add: get16_def)
qed

lemma get32_append: "4 \<le> length xs \<Longrightarrow> get32 (xs @ ys) = get32 xs"
proof -
  assume "4 \<le> length xs"
  then obtain a b c d r where "xs = a # b # c # d # r"
    by (cases xs; cases "tl xs"; cases "tl (tl xs)"; cases "tl (tl (tl xs))") auto
  then show ?thesis by (simp add: get32_def get16_def)
qed

lemma take_split: "take (i + j) xs = take i xs @ take j (drop i xs)"
  by (rule take_add)

lemma FFNT_Decode_header:
  assumes "length hdr = 20"
  shows "\<exists>h. FFNT_Decode (Slice (hdr @ rest) n) = Inr h \<and>
           (\<forall>fileSize. FFNT_Encode h fileSize = Inr (take 12 hdr @ put32 fileSize @ drop 16 hdr))"
proof -
  define h where "h = \<lparr> MagicHeader = take 4 hdr, Endianness = get16 (drop 4 hdr),
                 SectionSize = get16 (drop 6 hdr), Version = get32 (drop 8 hdr),
                 TotalFileSize = get32 (drop 12 hdr), BlockReadNum = get32 (drop 16 hdr) \<rparr>"
  have len: "20 \<le> length (upto_cap (Slice (hdr @ rest) n))" using assms by simp
  have dec: "FFNT_Decode (Slice (hdr @ rest) n) = Inr h"
    unfolding FFNT_Decode_fields [OF len] h_def using assms
    by (simp add: get16_append get32_append)
  have parts: "take 12 hdr = take 4 hdr @ take 2 (drop 4 hdr) @ take 2 (drop 6 hdr)
                 @ take 4 (drop 8 hdr)"
  proof -
    have "take 12 hdr = take 8 hdr @ take 4 (drop 8 hdr)"
      using take_split [of 8 4 hdr] by simp
    also have "take 8 hdr = take 6 hdr @ take 2 (drop 6 hdr)"
      using take_split [of 6 2 hdr] by simp
    also have "take 6 hdr = take 4 hdr @ take 2 (drop 4 hdr)"
      using take_split [of 4 2 hdr] by simp
    finally show ?thesis by simp
  qed
  have last4: "drop 16 hdr = take 4 (drop 16 hdr)" using assms by simp
  have enc: "FFNT_Encode h fileSize = Inr (take 12 hdr @ put32 fileSize @ drop 16 hdr)"
    for fileSize
  proof -
    have p1: "put16 (get16 (drop 4 hdr)) = take 2 (drop 4 hdr)"
      using assms by (intro put16_get16_take) simp
    have p2: "put16 (get16 (drop 6 hdr)) = take 2 (drop 6 hdr)"
      using assms by (intro put16_get16_take) simp
    have p3: "put32 (get32 (drop 8 hdr)) = take 4 (drop 8 hdr)"
      using assms by (intro put32_get32_take) simp
    have p4: "put32 (get32 (drop 16 hdr)) = drop 16 hdr"
      using assms last4 put32_get32_take [of "drop 16 hdr"] by simp
    show ?thesis
      unfolding parts
      using assms by (simp add: FFNT_Encode_def h_def Let_def assertEqual_def
          FFNT_HEADER_SIZE_def p1 p2 p3 p4)
  qed
  from dec enc show ?thesis by blast
qed

lemma layout_length_perm:
  assumes "mset fcs = mset fcs'"
  shows "length (krngLayout t fcs) = length (krngLayout t fcs')"
proof -
  have "sum_list (map (\<lambda>fc. 6 + 4 * length (pairsOf t fc)) xs) =
        sum_mset (image_mset (\<lambda>fc. 6 + 4 * length (pairsOf t fc)) (mset xs))" for xs
    by (induction xs) simp_all
  with assms show ?thesis
    using total_read_layout [of t fcs] total_read_layout [of t fcs'] by simp
qed

lemma firstChars_perm:
  assumes "distinct fcs" and "set fcs = dom t"
  shows "mset fcs = mset (getFirstCharsOrdered t)"
  using assms getFirstCharsOrdered_distinct [of t] getFirstCharsOrdered_set [of t]
  by (metis set_eq_iff_mset_eq_distinct)

lemma firstChars_sorted_unique:
  assumes "distinct fcs" and "set fcs = dom t" and "sorted (map unat fcs)"
  shows "fcs = getFirstCharsOrdered t"
proof -
  have inj: "inj_on unat A" for A :: "uint16 set"
    by (auto simp: inj_on_def word_unat_eq_iff)
  have "distinct (map unat fcs)" using assms(1) by (simp add: distinct_map inj)
  moreover have "set (map unat fcs) = unat ` dom t" using assms(2) by simp
  ultimately have "map unat fcs = sorted_list_of_set (unat ` dom t)"
    using assms(3) finite_dom_table [of t]
    by (metis sorted_list_of_set.idem_if_sorted_distinct)
  then have "map unat fcs = map unat (getFirstCharsOrdered t)"
    by (simp add: unat_getFirstCharsOrdered)
  then show ?thesis using inj [of UNIV] by (simp add: inj_map_eq_map)
qed

lemma length_krngSection:
  "length (krngSection t fcs s) =
     8 + length (krngLayout t fcs) + padLength s (length (krngLayout t fcs))"
  by (simp add: krngSection_def Let_def padded_layout KRNG_MAGIC_HEADER_def)

lemma krngSection_perm_length:
  assumes "distinct fcs" and "set fcs = dom t"
  shows "length (krngSection t (getFirstCharsOrdered t) s) = length (krngSection t fcs s)"
  using layout_length_perm [OF firstChars_perm [OF assms], of t]
  by (simp add: length_krngSection)

lemma kerningWellFormed_nonempty:
  assumes "kerningWellFormed verify before krngB t fcs" and "fcs \<noteq> []"
  shows "krngB = krngSection t fcs (length before + KRNG_HEADER_SIZE)"
    and "distinct fcs" and "set fcs = dom t"
    and "length (krngLayout t fcs) < 65536"
    and "Index (before @ krngB) KRNG_MAGIC_HEADER = Some (length before)"
    and "verify (replicate (padLength (length before + KRNG_HEADER_SIZE)
                              (length (krngLayout t fcs))) 0)"
proof -
  have "kerningWellFormed verify before krngB t fcs =
          (krngB = krngSection t fcs (length before + KRNG_HEADER_SIZE) \<and>
           distinct fcs \<and> set fcs = dom t \<and>
           length (krngLayout t fcs) < 65536 \<and>
           Index (before @ krngB) KRNG_MAGIC_HEADER = Some (length before) \<and>
           verify (replicate (padLength (length before + KRNG_HEADER_SIZE)
                                (length (krngLayout t fcs))) 0))"
    unfolding kerningWellFormed_def using assms(2) by (rule if_not_P)
  from this assms(1)
  have all: "krngB = krngSection t fcs (length before + KRNG_HEADER_SIZE) \<and>
           distinct fcs \<and> set fcs = dom t \<and>
           length (krngLayout t fcs) < 65536 \<and>
           Index (before @ krngB) KRNG_MAGIC_HEADER = Some (length before) \<and>
           verify (replicate (padLength (length before + KRNG_HEADER_SIZE)
                                (length (krngLayout t fcs))) 0)"
    by (rule iffD1)
  from all show "krngB = krngSection t fcs (length before + KRNG_HEADER_SIZE)" by (rule conjunct1)
  from all show "distinct fcs" by (elim conjE)
  from all show "set fcs = dom t" by (elim conjE)
  from all show "length (krngLayout t fcs) < 65536" by (elim conjE)
  from all show "Index (before @ krngB) KRNG_MAGIC_HEADER = Some (length before)"
    by (elim conjE)
  from all show "verify (replicate (padLength (length before + KRNG_HEADER_SIZE)
                              (length (krngLayout t fcs))) 0)"
    by (elim conjE)
qed

lemma kerningWellFormed_empty:
  assumes "kerningWellFormed verify before krngB t []"
  shows "krngB = []" and "t = Map.empty" and "Index before KRNG_MAGIC_HEADER = None"
  using assms by (simp_all add: kerningWellFormed_def)

lemma kerning_decoded:
  assumes wf: "kerningWellFormed verify before krngB t fcs"
    and fresh: "KerningTable k0 = Map.empty"
  shows "\<exists>k. KRNG_Decode verify k0 (Slice (before @ krngB @ spare) (length (before @ krngB)))
               = Inr k \<and> KerningTable k = t"
proof (cases "fcs = []")
  case True
  with wf have "krngB = []" "t = Map.empty" "Index before KRNG_MAGIC_HEADER = None"
    by (simp_all add: kerningWellFormed_def)
  with fresh show ?thesis by (simp add: KRNG_Decode_def contents_def)
next
  case False
  note sec = kerningWellFormed_nonempty(1) [OF wf False]
    and dom = kerningWellFormed_nonempty(3) [OF wf False]
    and L = kerningWellFormed_nonempty(4) [OF wf False]
    and idx = kerningWellFormed_nonempty(5) [OF wf False]
    and ver = kerningWellFormed_nonempty(6) [OF wf False]
  have "contents (Slice (before @ krngB @ spare) (length (before @ krngB))) = before @ krngB"
    by (simp add: contents_def)
  then have "KRNG_Decode verify k0 (Slice (before @ krngB @ spare) (length (before @ krngB))) =
          KRNG_Decode_at verify k0 (Slice (before @ krngB @ spare) (length (before @ krngB)))
            (length before)"
    by (simp add: KRNG_Decode_def idx)
  with KRNG_Decode_at_section [where verify = verify and krng = k0 and pre = before
      and s = "length before + KRNG_HEADER_SIZE" and post = spare
      and n = "length (before @ krngB)", OF dom L ver]
  show ?thesis
    unfolding sec by simp
qed

lemma kerning_encoded:
  assumes wf: "kerningWellFormed verify before krngB t fcs"
    and tab: "KerningTable k = t"
  shows "fst (KRNG_Encode k startOffset) =
           (if fcs = [] then []
            else krngSection t (getFirstCharsOrdered t) (unat startOffset))"
proof (cases "fcs = []")
  case True
  with wf have "t = Map.empty" by (simp add: kerningWellFormed_def)
  with True tab show ?thesis by (simp add: KRNG_Encode_def)
next
  case False
  from kerningWellFormed_nonempty(3) [OF wf False] have "set fcs = dom t" .
  with False have "dom (KerningTable k) \<noteq> {}" using tab by auto
  from KRNG_Encode_section [OF this] False tab show ?thesis by simp
qed


lemma layout_unsorted:
  "krngLayout (KerningTable smallKRNG) [0x4C, 0x41] =
     [0x00, 0x02, 0x00, 0x4C, 0x00, 0x05, 0x00, 0x41, 0x00, 0x08,
      0x00, 0x01, 0x00, 0x56, 0xFF, 0xFF,
      0x00, 0x02, 0x00, 0x56, 0xFF, 0xFF, 0x00, 0x57, 0xFF, 0xFE]"
  by (simp add: krngLayout_def smallKRNG_def writePairArray_def pairsOf_def writePair_def
      examplePair_def put16_def)

lemma layout_sorted:
  "krngLayout (KerningTable smallKRNG) [0x41, 0x4C] =
     [0x00, 0x02, 0x00, 0x41, 0x00, 0x05, 0x00, 0x4C, 0x00, 0x0A,
      0x00, 0x02, 0x00, 0x56, 0xFF, 0xFF, 0x00, 0x57, 0xFF, 0xFE,
      0x00, 0x01, 0x00, 0x56, 0xFF, 0xFF]"
  by (simp add: krngLayout_def smallKRNG_def writePairArray_def pairsOf_def writePair_def
      examplePair_def put16_def)

lemma rep2: "replicate 2 (0 :: byte) = [0, 0]"
  by (simp add: numeral_2_eq_2)

lemma section_unsorted:
  "krngSection (KerningTable smallKRNG) [0x4C, 0x41] 96 = unsortedKerningSection"
  unfolding krngSection_def Let_def layout_unsorted
  by (simp add: padToNext4ByteBoundary_def KRNG_MAGIC_HEADER_def KRNG_HEADER_SIZE_def put32_def put16_def
      unsortedKerningSection_def rep2)

lemma section_sorted:
  "krngSection (KerningTable smallKRNG) [0x41, 0x4C] 96 = sortedKerningSection"
  unfolding krngSection_def Let_def layout_sorted
  by (simp add: padToNext4ByteBoundary_def KRNG_MAGIC_HEADER_def KRNG_HEADER_SIZE_def put32_def put16_def
      sortedKerningSection_def rep2)

lemma index_unsorted:
  "Index (exampleHeader 124 @ exampleBody @ unsortedKerningSection) KRNG_MAGIC_HEADER = Some 88"
  by (simp add: exampleHeader_def exampleBody_def exampleEncoded_def unsortedKerningSection_def
      KRNG_MAGIC_HEADER_def put32_def put16_def)

lemma index_sorted:
  "Index (exampleHeader 124 @ exampleBody @ sortedKerningSection) KRNG_MAGIC_HEADER = Some 88"
  by (simp add: exampleHeader_def exampleBody_def exampleEncoded_def sortedKerningSection_def
      KRNG_MAGIC_HEADER_def put32_def put16_def)

lemma standIn_reproduce:
  "sectionsReproduce standInSections raw (finfRaw exampleEncoded) (tglpRaw exampleEncoded)
     (cwdhsRaw exampleEncoded) (cmapsRaw exampleEncoded)"
  unfolding sectionsReproduce_def
  by (simp add: standInSections_def exampleEncoded_def FFNT_HEADER_SIZE_def put32_def put16_def)

lemma kerningWellFormed_example:
  assumes sec: "krngSection (KerningTable smallKRNG) fcs 96 = krngB"
    and lay: "length (krngLayout (KerningTable smallKRNG) fcs) = 26"
    and idx: "Index (exampleHeader 124 @ exampleBody @ krngB) KRNG_MAGIC_HEADER = Some 88"
    and fcs: "fcs = [0x4C, 0x41] \<or> fcs = [0x41, 0x4C]"
  shows "kerningWellFormed (\<lambda>_. True)
           (exampleHeader 124 @ finfRaw exampleEncoded @ tglpRaw exampleEncoded
            @ cwdhsRaw exampleEncoded @ cmapsRaw exampleEncoded)
           krngB (KerningTable smallKRNG) fcs"
proof -
  have len: "length (exampleHeader 124 @ finfRaw exampleEncoded @ tglpRaw exampleEncoded
            @ cwdhsRaw exampleEncoded @ cmapsRaw exampleEncoded) = 88"
    by (simp add: exampleHeader_def exampleEncoded_def)
  have dom: "set fcs = dom (KerningTable smallKRNG)" and di: "distinct fcs" and ne: "fcs \<noteq> []"
    using fcs by (auto simp: smallKRNG_def)
  show ?thesis
    unfolding kerningWellFormed_def len
    using ne di dom sec lay idx
    by (simp add: KRNG_HEADER_SIZE_def exampleBody_def)
qed


lemma section_empty: "krngSection Map.empty [] 96 = emptyKerningSection"
  by (simp add: krngSection_def krngLayout_def padToNext4ByteBoundary_def Let_def
      KRNG_MAGIC_HEADER_def KRNG_HEADER_SIZE_def put32_def put16_def emptyKerningSection_def rep2)

lemma emptyKerningBuffer_bytes:
  "emptyKerningBuffer =
     [0x46, 0x46, 0x4E, 0x54, 0xFE, 0xFF, 0x00, 0x14, 0x03, 0x00, 0x00, 0x00,
      0x00, 0x00, 0x00, 0x64, 0x00, 0x01, 0x00, 0x00,
      0x46, 0x49, 0x4E, 0x46, 0x00, 0x00, 0x00, 0x20, 0, 0, 0, 0, 0, 0, 0, 0,
      0, 0, 0, 0, 0x00, 0x00, 0x00, 0x3C, 0x00, 0x00, 0x00, 0x48, 0x00, 0x00, 0x00, 0x54,
      0x54, 0x47, 0x4C, 0x50, 0x00, 0x00, 0x00, 0x0C, 1, 2, 3, 4,
      0x43, 0x57, 0x44, 0x48, 0x00, 0x00, 0x00, 0x0C, 5, 6, 7, 8,
      0x43, 0x4D, 0x41, 0x50, 0x00, 0x00, 0x00, 0x0C, 9, 10, 11, 12,
      0x4B, 0x52, 0x4E, 0x47, 0x00, 0x00, 0x00, 0x0C, 0x00, 0x00, 0x00, 0x00]"
  by (simp add: emptyKerningBuffer_def exampleHeader_def exampleBody_def exampleEncoded_def
      emptyKerningSection_def put32_def put16_def)

lemma decode_emptyKerningBuffer:
  "BFFNT_Decode standInSections (\<lambda>_. True) keySort exampleDocument (whole emptyKerningBuffer) =
     Inr emptyKerningDocument"
proof -
  have len: "20 \<le> length (upto_cap (whole emptyKerningBuffer))"
    by (simp add: whole_def emptyKerningBuffer_bytes)
  have h: "FFNT_Decode (whole emptyKerningBuffer) =
             Inr ((FFNT exampleDocument) \<lparr> TotalFileSize := 100 \<rparr>)"
    unfolding FFNT_Decode_fields [OF len]
    by (simp add: whole_def emptyKerningBuffer_bytes exampleDocument_def get16_def get32_def)
  have idx: "Index (contents (whole emptyKerningBuffer)) KRNG_MAGIC_HEADER = Some 88"
    by (simp add: contents_def whole_def emptyKerningBuffer_bytes KRNG_MAGIC_HEADER_def)
  have at: "KRNG_Decode_at (\<lambda>_. True) emptyKRNG (whole emptyKerningBuffer) 88 =
     Inr \<lparr> KRNG_MagicHeader = KRNG_MAGIC_HEADER, KRNG_SectionSize = 12,
           KerningTable = Map.empty \<rparr>"
    by (simp add: KRNG_Decode_at_def emptyKerningBuffer_bytes emptyKRNG_def
        KRNG_HEADER_SIZE_def KRNG_MAGIC_HEADER_def whole_def reslice_def reslice_from_def
        assertEqual_def Uint16_def Uint32_def get16_def get32_def contents_def)
  have k: "KRNG_Decode (\<lambda>_. True) (KRNG exampleDocument) (whole emptyKerningBuffer) =
     Inr \<lparr> KRNG_MagicHeader = KRNG_MAGIC_HEADER, KRNG_SectionSize = 12,
           KerningTable = Map.empty \<rparr>"
    using at by (simp add: KRNG_Decode_def idx exampleDocument_def)
  show ?thesis
    unfolding BFFNT_Decode_def h k andThen_Inr
    by (simp add: standInSections_def exampleDocument_def GlyphIndexes_def keySort_def
        indexGlyphs_def Let_def emptyKerningDocument_def)
qed

lemma encode_without_kerning:
  "BFFNT_Encode standInSections emptyKerningDocument = Inr (exampleHeader 88 @ exampleBody)"
  by (simp add: BFFNT_Encode_def BFFNT_Encode_parts_def standInSections_def exampleDocument_def
      Let_def FFNT_HEADER_SIZE_def KRNG_Encode_def FFNT_Encode_def assertEqual_def
      put32_def put16_def exampleEncoded_def assemble_def exampleHeader_def exampleBody_def
      emptyKerningDocument_def)

lemma length_concat_replicate4:
  "length (concat (replicate n [a, b, c, d])) = 4 * n"
  by (induction n) simp_all

lemma length_wideKerningSection: "length wideKerningSection = 65544"
  by (simp add: wideKerningSection_def length_concat_replicate4)

lemma encode_wide_kerning:
  "fst (KRNG_Encode (KRNG wideDocument) 96) = wideKerningSection"
proof -
  have fcs: "getFirstCharsOrdered [0x41 \<mapsto> widePairs] = [0x41]"
    by (simp add: getFirstCharsOrdered_def)
  have wp: "writePair examplePair = [0x00, 0x56, 0xFF, 0xFF]"
    by (simp add: writePair_def examplePair_def put16_def)
  have data: "krngDataBuf [0x41 \<mapsto> widePairs] =
     [0x00, 0x01, 0x00, 0x41, 0x00, 0x03, 0x3F, 0xFE]
     @ concat (replicate 16382 [0x00, 0x56, 0xFF, 0xFF])"
    unfolding krngDataBuf_def Let_def fcs
    by (simp add: writePairArray_def pairsOf_def widePairs_def wp put16_def)
  have len: "length (krngDataBuf [0x41 \<mapsto> widePairs]) = 65536"
    unfolding data by (simp add: length_concat_replicate4)
  have pad: "padToNext4ByteBoundary (krngDataBuf [0x41 \<mapsto> widePairs]) 96 =
               krngDataBuf [0x41 \<mapsto> widePairs]"
    by (simp add: padToNext4ByteBoundary_def len)
  have "fst (KRNG_Encode (KRNG wideDocument) 96) =
          KRNG_MAGIC_HEADER @ put32 65544 @ krngDataBuf [0x41 \<mapsto> widePairs]"
    by (simp add: KRNG_Encode_def Let_def wideDocument_def pad len KRNG_HEADER_SIZE_def)
  then show ?thesis
    unfolding data
    by (simp add: KRNG_MAGIC_HEADER_def put32_def put16_def wideKerningSection_def)
qed


lemma encode_wideDocument: "BFFNT_Encode standInSections wideDocument = Inr wideBuffer"
proof -
  note k = encode_wide_kerning
  have f: "FINF wideDocument = ()" "TGLP wideDocument = ()" "CWDHs wideDocument = []"
    "CMAPs wideDocument = []" "FFNT wideDocument = FFNT exampleDocument"
    by (simp_all add: wideDocument_def exampleDocument_def)
  have parts: "BFFNT_Encode_parts standInSections wideDocument =
     Inr (exampleEncoded \<lparr> ffntRaw := exampleHeader 65632, krngRaw := wideKerningSection \<rparr>)"
    unfolding BFFNT_Encode_parts_def Let_def f
    by (simp add: standInSections_def FFNT_HEADER_SIZE_def k length_wideKerningSection
        FFNT_Encode_def assertEqual_def exampleDocument_def exampleEncoded_def
        exampleHeader_def put32_def put16_def)
  show ?thesis
    by (simp add: BFFNT_Encode_def parts assemble_def wideBuffer_def exampleBody_def)
qed

lemma decode_wideBuffer:
  "BFFNT_Decode standInSections (\<lambda>_. True) keySort exampleDocument (whole wideBuffer) =
     Inl TruncatedInput"
proof -
  define rest :: "byte list" where "rest = concat (replicate 16382 [0x00, 0x56, 0xFF, 0xFF])"
  have bytes: "wideBuffer =
     [0x46, 0x46, 0x4E, 0x54, 0xFE, 0xFF, 0x00, 0x14, 0x03, 0x00, 0x00, 0x00,
      0x00, 0x01, 0x00, 0x60, 0x00, 0x01, 0x00, 0x00,
      0x46, 0x49, 0x4E, 0x46, 0x00, 0x00, 0x00, 0x20, 0, 0, 0, 0, 0, 0, 0, 0,
      0, 0, 0, 0, 0x00, 0x00, 0x00, 0x3C, 0x00, 0x00, 0x00, 0x48, 0x00, 0x00, 0x00, 0x54,
      0x54, 0x47, 0x4C, 0x50, 0x00, 0x00, 0x00, 0x0C, 1, 2, 3, 4,
      0x43, 0x57, 0x44, 0x48, 0x00, 0x00, 0x00, 0x0C, 5, 6, 7, 8,
      0x43, 0x4D, 0x41, 0x50, 0x00, 0x00, 0x00, 0x0C, 9, 10, 11, 12,
      0x4B, 0x52, 0x4E, 0x47, 0x00, 0x01, 0x00, 0x08,
      0x00, 0x01, 0x00, 0x41, 0x00, 0x03, 0x3F, 0xFE] @ rest"
    by (simp add: wideBuffer_def exampleHeader_def exampleBody_def exampleEncoded_def
        wideKerningSection_def put32_def put16_def rest_def)
  have lrest: "length rest = 65528" by (simp add: rest_def length_concat_replicate4)
  have len: "20 \<le> length (upto_cap (whole wideBuffer))"
    by (simp add: whole_def bytes)
  have h: "FFNT_Decode (whole wideBuffer) =
             Inr ((FFNT exampleDocument) \<lparr> TotalFileSize := 65632 \<rparr>)"
    unfolding FFNT_Decode_fields [OF len]
    by (simp add: whole_def bytes exampleDocument_def get16_def get32_def)
  have idx: "Index (contents (whole wideBuffer)) KRNG_MAGIC_HEADER = Some 88"
    by (simp add: contents_def whole_def bytes KRNG_MAGIC_HEADER_def)
  have at: "KRNG_Decode_at (\<lambda>_. True) emptyKRNG (whole wideBuffer) 88 = Inl TruncatedInput"
    by (simp add: KRNG_Decode_at_def bytes lrest emptyKRNG_def readPairArray_def
        KRNG_HEADER_SIZE_def KRNG_MAGIC_HEADER_def whole_def reslice_def reslice_from_def
        assertEqual_def Uint16_def Uint32_def get16_def get32_def contents_def)
  have k: "KRNG_Decode (\<lambda>_. True) (KRNG exampleDocument) (whole wideBuffer) =
             Inl TruncatedInput"
    using at by (simp add: KRNG_Decode_def idx exampleDocument_def)
  show ?thesis
    unfolding BFFNT_Decode_def h k andThen_Inr
    by (simp add: standInSections_def)
qed


end
